theory Spec2Isabelle
  imports Complex_Main "HOL-Library.Word"
begin

unbundle bit_operations_syntax

section \<open>GM8050Reader: frames and checksum\<close>

text \<open>
  An element of a Python \<open>bytes\<close> or \<open>bytearray\<close> object is an integer in \<open>range(256)\<close>:
  it is an 8-bit word here. Python's own integers are unbounded: they are \<open>int\<close>.
\<close>

type_synonym byte = "8 word"

datatype error = ValueError | SerialException | StructError | KeyError

subsection \<open>calc\_crc16\<close>

text \<open>
  The body of the inner loop \<open>for _ in range(8)\<close>: one shift of the accumulator, on
  Python's unbounded integers.
\<close>

definition crc_shift :: "int \<Rightarrow> int" where
  "crc_shift crc =
     (if crc AND 0x0001 \<noteq> 0 then drop_bit 1 crc XOR 0xA001 else drop_bit 1 crc)"

text \<open>The body of the outer loop \<open>for byte in data\<close>.\<close>

definition crc_update :: "int \<Rightarrow> byte \<Rightarrow> int" where
  "crc_update crc byte = (crc_shift ^^ 8) (crc XOR uint byte)"

definition calc_crc16 :: "byte list \<Rightarrow> int" where
  "calc_crc16 data = foldl crc_update 0xFFFF data"

text \<open>
  The checksum as the specification words it, on a 16-bit accumulator: start from
  \<open>0xFFFF\<close>; for each byte, XOR it into the low byte, then eight rounds of "if the low
  bit is set, shift right and XOR with \<open>0xA001\<close>, else shift right only".
\<close>

definition spec_round :: "16 word \<Rightarrow> 16 word" where
  "spec_round acc = (if bit acc 0 then drop_bit 1 acc XOR 0xA001 else drop_bit 1 acc)"

primrec spec_rounds :: "nat \<Rightarrow> 16 word \<Rightarrow> 16 word" where
  "spec_rounds 0 acc = acc"
| "spec_rounds (Suc n) acc = spec_rounds n (spec_round acc)"

primrec spec_checksum_from :: "16 word \<Rightarrow> byte list \<Rightarrow> 16 word" where
  "spec_checksum_from acc [] = acc"
| "spec_checksum_from acc (b # bs) = spec_checksum_from (spec_rounds 8 (acc XOR ucast b)) bs"

definition spec_checksum :: "byte list \<Rightarrow> 16 word" where
  "spec_checksum bs = spec_checksum_from 0xFFFF bs"

subsection \<open>build\_command\<close>

text \<open>
  \<open>bytes.fromhex\<close> of the Python library: ASCII whitespace between bytes is skipped,
  every byte is two hexadecimal digits of either case, and anything else raises
  \<open>ValueError\<close>.
\<close>

definition isspace :: "char \<Rightarrow> bool" where
  "isspace c = (of_char c \<in> {32, 9, 10, 11, 12, 13 :: nat})"

definition hex_value :: "char \<Rightarrow> nat option" where
  "hex_value c =
     (let n = of_char c :: nat in
      if 48 \<le> n \<and> n \<le> 57 then Some (n - 48)
      else if 97 \<le> n \<and> n \<le> 102 then Some (n - 87)
      else if 65 \<le> n \<and> n \<le> 70 then Some (n - 55)
      else None)"

fun fromhex :: "string \<Rightarrow> error + byte list" where
  "fromhex [] = Inr []"
| "fromhex [c] = (if isspace c then Inr [] else Inl ValueError)"
| "fromhex (c # d # cs) =
     (if isspace c then fromhex (d # cs)
      else case (hex_value c, hex_value d) of
             (Some h, Some l) \<Rightarrow>
               (case fromhex cs of
                  Inl e \<Rightarrow> Inl e
                | Inr bs \<Rightarrow> Inr (of_nat (h * 16 + l) # bs))
           | _ \<Rightarrow> Inl ValueError)"

text \<open>
  \<open>bytes([crc & 0xFF, (crc >> 8) & 0xFF])\<close>: both integers are masked to
  \<open>range(256)\<close>, so the constructor cannot raise.
\<close>

definition crc_bytes :: "int \<Rightarrow> byte list" where
  "crc_bytes crc = [word_of_int (crc AND 0xFF), word_of_int (drop_bit 8 crc AND 0xFF)]"

definition build_command :: "string \<Rightarrow> string \<Rightarrow> string \<Rightarrow> error + byte list" where
  "build_command address function data =
     (let cmd_hex = address @ function @ data in
      case fromhex cmd_hex of
        Inl e \<Rightarrow> Inl e
      | Inr cmd_bytes \<Rightarrow> Inr (cmd_bytes @ crc_bytes (calc_crc16 cmd_bytes)))"


section \<open>GM8050Reader: the serial port and the reader's state\<close>

text \<open>
  The serial port is outside the program. What it does is a parameter of the model, so
  that every theorem holds for every behaviour of the device and of the link.

  Wall-clock times (\<open>time.time()\<close>) and the wavelengths in nanometres are Python floats
  in the source; here they are exact rationals, so the rounding of floating-point
  arithmetic is not part of the model.
\<close>

text \<open>
  One pass through the \<open>while\<close> loop of \<open>read_response\<close>, as the port and the clock
  show it: the clock in the loop condition, whether the port raises when it is queried
  or read, \<open>ser.in_waiting\<close>, the bytes \<open>ser.read\<close> returns, the clock after the read,
  and the clock in the silence check that ends the pass.
\<close>

record poll =
  now_loop :: rat
  fault :: bool
  in_waiting :: nat
  incoming :: "byte list"
  now_data :: rat
  now_check :: rat

text \<open>
  One read cycle: whether \<open>ser.reset_input_buffer()\<close> raises, the clock at the start, and
  the passes of the loop that are observed.
\<close>

record cycle =
  reset_fault :: bool
  t_start :: rat
  polls :: "poll list"

text \<open>
  One request/response exchange: whether \<open>ser.write\<close> returns (\<open>True\<close>) or raises, and the
  read cycle that follows it.
\<close>

record exchange =
  write_ok :: bool
  reply :: cycle

text \<open>
  The state of the reader object: its scratch buffer \<open>self.byte_array\<close>, and the frames it
  has handed to \<open>ser.write\<close> so far, oldest first.
\<close>

record reader =
  byte_array :: "byte list"
  written :: "byte list list"

subsection \<open>read\_response\<close>

text \<open>
  The strings \<open>read_response\<close> returns, in the order of the source: success; illegal
  function code (error code 1); illegal data address (2); illegal data value (3); unknown
  error code, with the code formatted into the string; no data; response timeout.
\<close>

datatype response =
    Success
  | IllegalFunction
  | IllegalDataAddress
  | IllegalDataValue
  | UnknownErrorCode byte
  | NoData
  | ResponseTimeout

definition exception_response :: "byte \<Rightarrow> response" where
  "exception_response error_code =
     (if error_code = 1 then IllegalFunction
      else if error_code = 2 then IllegalDataAddress
      else if error_code = 3 then IllegalDataValue
      else UnknownErrorCode error_code)"

text \<open>
  The \<open>while\<close> loop. \<open>None\<close> means that the loop is still running when the observed
  passes end.
\<close>

fun read_loop ::
  "int \<Rightarrow> rat \<Rightarrow> rat \<Rightarrow> rat \<Rightarrow> byte list \<Rightarrow> poll list \<Rightarrow>
     ((error + response) \<times> byte list) option" where
  "read_loop expected_len timeout start_time last_data_time buf [] = None"
| "read_loop expected_len timeout start_time last_data_time buf (p # ps) =
     (if \<not> (now_loop p - start_time < timeout) then Some (Inr ResponseTimeout, buf)
      else if fault p then Some (Inl SerialException, buf)
      else if in_waiting p \<noteq> 0 then
        (let buf' = buf @ incoming p;
             last_data_time' = now_data p
         in if length buf' \<ge> 3 \<and> buf' ! 1 AND 0x80 \<noteq> 0 \<and> length buf' \<ge> 5
            then Some (Inr (exception_response (buf' ! 2)), buf')
            else if int (length buf') \<ge> expected_len then Some (Inr Success, buf')
            else if now_check p - last_data_time' > 1 / 10 \<and> length buf' < 5
            then Some (Inr NoData, buf')
            else read_loop expected_len timeout start_time last_data_time' buf' ps)
      else if now_check p - last_data_time > 1 / 10 \<and> length buf < 5
      then Some (Inr NoData, buf)
      else read_loop expected_len timeout start_time last_data_time buf ps)"

definition read_response ::
  "int \<Rightarrow> rat \<Rightarrow> cycle \<Rightarrow> reader \<Rightarrow> ((error + response) \<times> reader) option" where
  "read_response expected_len timeout c rd =
     (if reset_fault c then Some (Inl SerialException, rd)
      else map_option (\<lambda>(r, buf). (r, rd\<lparr>byte_array := buf\<rparr>))
             (read_loop expected_len timeout (t_start c) (t_start c) [] (polls c)))"

subsection \<open>send\_command\<close>

definition send_command :: "bool \<Rightarrow> string \<Rightarrow> string \<Rightarrow> string \<Rightarrow> reader \<Rightarrow> bool \<times> reader" where
  "send_command ok address function data rd =
     (case build_command address function data of
        Inl e \<Rightarrow> (False, rd)
      | Inr cmd \<Rightarrow>
          if ok then (True, rd\<lparr>written := written rd @ [cmd]\<rparr>)
          else (False, rd\<lparr>written := written rd @ [cmd]\<rparr>))"

subsection \<open>read\_scan\_parameters\<close>

text \<open>\<open>(self.byte_array[3] << 8) | self.byte_array[4]\<close>\<close>

definition register_value :: "byte list \<Rightarrow> int" where
  "register_value buf = push_bit 8 (uint (buf ! 3)) OR uint (buf ! 4)"

text \<open>
  The source reads the three registers with three copies of one block, which differ in
  the payload of the request only. The block is \<open>read_register\<close>; \<open>Inr None\<close> is its
  early \<open>return (0, 0, 0)\<close>.
\<close>

definition read_register ::
  "string \<Rightarrow> exchange \<Rightarrow> reader \<Rightarrow> ((error + int option) \<times> reader) option" where
  "read_register data x rd =
     (case send_command (write_ok x) ''01'' ''03'' data rd of
        (sent, rd1) \<Rightarrow>
          if \<not> sent then Some (Inr None, rd1)
          else (case read_response 7 1 (reply x) rd1 of
                  None \<Rightarrow> None
                | Some (Inl e, rd2) \<Rightarrow> Some (Inl e, rd2)
                | Some (Inr resp_status, rd2) \<Rightarrow>
                    if resp_status \<noteq> Success \<or> length (byte_array rd2) < 7
                    then Some (Inr None, rd2)
                    else Some (Inr (Some (register_value (byte_array rd2))), rd2)))"

text \<open>The body of the \<open>try\<close> block.\<close>

definition read_scan_parameters_try ::
  "exchange \<Rightarrow> exchange \<Rightarrow> exchange \<Rightarrow> reader \<Rightarrow>
     ((error + rat \<times> rat \<times> rat) \<times> reader) option" where
  "read_scan_parameters_try x1 x2 x3 rd =
     (case read_register ''10050001'' x1 rd of
        None \<Rightarrow> None
      | Some (Inl e, rd1) \<Rightarrow> Some (Inl e, rd1)
      | Some (Inr None, rd1) \<Rightarrow> Some (Inr (0, 0, 0), rd1)
      | Some (Inr (Some start_reg), rd1) \<Rightarrow>
     (case read_register ''10060001'' x2 rd1 of
        None \<Rightarrow> None
      | Some (Inl e, rd2) \<Rightarrow> Some (Inl e, rd2)
      | Some (Inr None, rd2) \<Rightarrow> Some (Inr (0, 0, 0), rd2)
      | Some (Inr (Some stop_reg), rd2) \<Rightarrow>
     (case read_register ''10070001'' x3 rd2 of
        None \<Rightarrow> None
      | Some (Inl e, rd3) \<Rightarrow> Some (Inl e, rd3)
      | Some (Inr None, rd3) \<Rightarrow> Some (Inr (0, 0, 0), rd3)
      | Some (Inr (Some step_reg), rd3) \<Rightarrow>
          (let start_wl = 1520 + of_int start_reg / 1000;
               stop_wl = 1520 + of_int stop_reg / 1000;
               step_wl = of_int step_reg / 1000
           in Some (Inr (start_wl, stop_wl, step_wl), rd3)))))"

text \<open>\<open>except Exception\<close>: every exception of the body becomes \<open>(0, 0, 0)\<close>.\<close>

definition read_scan_parameters ::
  "exchange \<Rightarrow> exchange \<Rightarrow> exchange \<Rightarrow> reader \<Rightarrow> ((rat \<times> rat \<times> rat) \<times> reader) option" where
  "read_scan_parameters x1 x2 x3 rd =
     (case read_scan_parameters_try x1 x2 x3 rd of
        None \<Rightarrow> None
      | Some (Inl e, rd') \<Rightarrow> Some ((0, 0, 0), rd')
      | Some (Inr params, rd') \<Rightarrow> Some (params, rd'))"

subsection \<open>read\_spectrum\<close>

definition num_points :: nat where
  "num_points = 2051"

definition channel_base_addrs :: "nat \<rightharpoonup> nat" where
  "channel_base_addrs = [0 \<mapsto> 0x2000, 1 \<mapsto> 0x3000, 2 \<mapsto> 0x4000, 3 \<mapsto> 0x5000]"

text \<open>The format specification \<open>04X\<close>: upper-case hexadecimal, zero-padded to four digits.\<close>

definition upper_hex_digit :: "nat \<Rightarrow> char" where
  "upper_hex_digit d = ''0123456789ABCDEF'' ! d"

fun upper_hex :: "nat \<Rightarrow> string" where
  "upper_hex n =
     (if n < 16 then [upper_hex_digit n]
      else upper_hex (n div 16) @ [upper_hex_digit (n mod 16)])"

declare upper_hex.simps [simp del]

definition format_04X :: "nat \<Rightarrow> string" where
  "format_04X n = (let s = upper_hex n in replicate (4 - length s) CHR ''0'' @ s)"

text \<open>The inner loop over \<open>range(num_points)\<close>, which appends one value per index.\<close>

definition channel_samples :: "byte list \<Rightarrow> int list" where
  "channel_samples data_bytes =
     map (\<lambda>i. let idx = i * 2
               in if idx + 1 < length data_bytes
                  then push_bit 8 (uint (data_bytes ! idx)) OR uint (data_bytes ! (idx + 1))
                  else 0)
       [0..<num_points]"

text \<open>
  The loop \<open>for ch_idx in range(4)\<close>, with the list \<open>spectrum\<close> built so far. The channel
  \<open>ch_idx\<close> talks to the device in the exchange \<open>ch ch_idx\<close>.
\<close>

fun read_channels ::
  "(nat \<Rightarrow> exchange) \<Rightarrow> nat list \<Rightarrow> int list list \<Rightarrow> reader \<Rightarrow>
     ((error + int list list) \<times> reader) option" where
  "read_channels ch [] spectrum rd = Some (Inr spectrum, rd)"
| "read_channels ch (ch_idx # rest) spectrum rd =
     (case channel_base_addrs ch_idx of
        None \<Rightarrow> Some (Inl KeyError, rd)
      | Some base_addr \<Rightarrow>
          (let cmd_start = format_04X base_addr;
               cmd_count = format_04X num_points;
               cmd = ''0114'' @ cmd_start @ cmd_count
           in case send_command (write_ok (ch ch_idx))
                     (take 2 cmd) (take 2 (drop 2 cmd)) (drop 4 cmd) rd of
                (sent, rd1) \<Rightarrow>
                  if \<not> sent then read_channels ch rest (spectrum @ [[]]) rd1
                  else (let expected_length = 4 + 2 * int num_points
                        in case read_response expected_length 1 (reply (ch ch_idx)) rd1 of
                             None \<Rightarrow> None
                           | Some (Inl e, rd2) \<Rightarrow> Some (Inl e, rd2)
                           | Some (Inr resp_status, rd2) \<Rightarrow>
                               if resp_status \<noteq> Success
                               then read_channels ch rest (spectrum @ [[]]) rd2
                               else (let data_bytes =
                                           take (2 * num_points) (drop 4 (byte_array rd2));
                                         channel_data = channel_samples data_bytes
                                     in read_channels ch rest (spectrum @ [channel_data]) rd2))))"

text \<open>The body of the \<open>try\<close> block.\<close>

definition read_spectrum_try ::
  "exchange \<Rightarrow> exchange \<Rightarrow> exchange \<Rightarrow> (nat \<Rightarrow> exchange) \<Rightarrow> reader \<Rightarrow>
     ((error + rat list \<times> int list list) \<times> reader) option" where
  "read_spectrum_try x1 x2 x3 ch rd =
     (case read_scan_parameters x1 x2 x3 rd of
        None \<Rightarrow> None
      | Some ((start_wl, stop_wl, step_wl), rd1) \<Rightarrow>
          if step_wl \<le> 0 then Some (Inr ([], []), rd1)
          else (let wavelengths = map (\<lambda>i. start_wl + of_nat i * step_wl) [0..<num_points]
                in case read_channels ch [0..<4] [] rd1 of
                     None \<Rightarrow> None
                   | Some (Inl e, rd2) \<Rightarrow> Some (Inl e, rd2)
                   | Some (Inr spectrum, rd2) \<Rightarrow> Some (Inr (wavelengths, spectrum), rd2)))"

text \<open>\<open>except Exception\<close>: every exception of the body becomes \<open>[], []\<close>.\<close>

definition read_spectrum ::
  "exchange \<Rightarrow> exchange \<Rightarrow> exchange \<Rightarrow> (nat \<Rightarrow> exchange) \<Rightarrow> reader \<Rightarrow>
     ((rat list \<times> int list list) \<times> reader) option" where
  "read_spectrum x1 x2 x3 ch rd =
     (case read_spectrum_try x1 x2 x3 ch rd of
        None \<Rightarrow> None
      | Some (Inl e, rd') \<Rightarrow> Some (([], []), rd')
      | Some (Inr result, rd') \<Rightarrow> Some (result, rd'))"

subsection \<open>read\_center\_wavelengths\<close>

text \<open>
  A Python float that comes out of \<open>struct.unpack('>f', ...)\<close>: a finite value, which is
  a rational, an infinity or a NaN.
\<close>

datatype pyfloat = Finite rat | PosInf | NegInf | NaN

text \<open>The IEEE-754 single-precision value of a 32-bit pattern, given as a number.\<close>

definition float_of_bits :: "nat \<Rightarrow> pyfloat" where
  "float_of_bits n =
     (let negative = (n div 2 ^ 31) mod 2 = 1;
          e = (n div 2 ^ 23) mod 256;
          m = n mod 2 ^ 23
      in if e = 255 then (if m \<noteq> 0 then NaN else if negative then NegInf else PosInf)
         else (let magnitude =
                     (if e = 0 then of_nat m / 2 ^ 149
                      else of_nat (2 ^ 23 + m) * 2 ^ e / 2 ^ 150)
               in Finite (if negative then - magnitude else magnitude)))"

text \<open>
  \<open>struct.unpack('>f', b)[0]\<close>: four bytes, most significant first; any other length
  raises \<open>struct.error\<close>.
\<close>

definition unpack_be_float :: "byte list \<Rightarrow> error + pyfloat" where
  "unpack_be_float b =
     (case b of
        [b0, b1, b2, b3] \<Rightarrow>
          Inr (float_of_bits (((unat b0 * 256 + unat b1) * 256 + unat b2) * 256 + unat b3))
      | _ \<Rightarrow> Inl StructError)"

text \<open>\<open>value > 0\<close> on Python floats: false for a NaN.\<close>

definition float_gt_zero :: "pyfloat \<Rightarrow> bool" where
  "float_gt_zero v = (case v of Finite r \<Rightarrow> r > 0 | PosInf \<Rightarrow> True | NegInf \<Rightarrow> False | NaN \<Rightarrow> False)"

text \<open>The loop \<open>for i in range(32)\<close>, with the list \<open>results\<close> built so far.\<close>

fun parse_wavelengths :: "byte list \<Rightarrow> nat list \<Rightarrow> pyfloat list \<Rightarrow> error + pyfloat list" where
  "parse_wavelengths data [] results = Inr results"
| "parse_wavelengths data (i # rest) results =
     (let idx = i * 4
      in case unpack_be_float (take 4 (drop idx data)) of
           Inl e \<Rightarrow> Inl e
         | Inr v \<Rightarrow>
             parse_wavelengths data rest (if float_gt_zero v then results @ [v] else results))"

definition read_center_wavelengths ::
  "string \<Rightarrow> exchange \<Rightarrow> reader \<Rightarrow> ((error + pyfloat list) \<times> reader) option" where
  "read_center_wavelengths address x rd =
     (let cmd_data = ''03000200''
      in case send_command (write_ok x) address ''14'' cmd_data rd of
           (sent, rd1) \<Rightarrow>
             if \<not> sent then Some (Inr [], rd1)
             else (case read_response (4 + 1024) 20 (reply x) rd1 of
                     None \<Rightarrow> None
                   | Some (Inl e, rd2) \<Rightarrow> Some (Inl e, rd2)
                   | Some (Inr resp_status, rd2) \<Rightarrow>
                       if resp_status \<noteq> Success then Some (Inr [], rd2)
                       else (let data = take 1024 (drop 4 (byte_array rd2))
                             in case parse_wavelengths data [0..<32] [] of
                                  Inl e \<Rightarrow> Some (Inl e, rd2)
                                | Inr results \<Rightarrow> Some (Inr results, rd2))))"


section \<open>Vocabulary of the theorems\<close>

text \<open>
  What one request/response exchange amounts to for the operation that runs it, given
  that the request is well-formed hexadecimal text: the request goes out and the read
  cycle is classified as success with the buffer \<open>buf\<close> (\<open>Answered buf\<close>); \<open>send_command\<close>
  returns \<open>False\<close> or the classification is not success (\<open>Refused\<close>); the port raises
  inside \<open>read_response\<close> (\<open>Raised\<close>); the read loop is still running when the observed
  passes end (\<open>Pending\<close>).
\<close>

datatype outcome = Answered "byte list" | Refused | Raised | Pending

definition exchange_outcome :: "int \<Rightarrow> rat \<Rightarrow> exchange \<Rightarrow> outcome" where
  "exchange_outcome expected_len timeout x =
     (if \<not> write_ok x then Refused
      else if reset_fault (reply x) then Raised
      else case read_loop expected_len timeout (t_start (reply x)) (t_start (reply x)) []
                  (polls (reply x)) of
             None \<Rightarrow> Pending
           | Some (Inl e, buf) \<Rightarrow> Raised
           | Some (Inr resp_status, buf) \<Rightarrow>
               if resp_status = Success then Answered buf else Refused)"

definition failed :: "outcome \<Rightarrow> bool" where
  "failed out = (case out of Refused \<Rightarrow> True | Raised \<Rightarrow> True | _ \<Rightarrow> False)"

text \<open>
  Reading the scan parameters fails: one of the three register reads fails, the ones
  before it having been answered.
\<close>

definition scan_fails :: "exchange \<Rightarrow> exchange \<Rightarrow> exchange \<Rightarrow> bool" where
  "scan_fails x1 x2 x3 =
     (case exchange_outcome 7 1 x1 of
        Answered b1 \<Rightarrow>
          (case exchange_outcome 7 1 x2 of
             Answered b2 \<Rightarrow> failed (exchange_outcome 7 1 x3)
           | out2 \<Rightarrow> failed out2)
      | out1 \<Rightarrow> failed out1)"

text \<open>What one channel contributes to the spectrum, from the outcome of its exchange.\<close>

definition channel_result :: "outcome \<Rightarrow> int list" where
  "channel_result out =
     (case out of
        Answered buf \<Rightarrow> channel_samples (take (2 * num_points) (drop 4 buf))
      | _ \<Rightarrow> [])"

text \<open>The big-endian single-precision float that starts at index \<open>k\<close> of a buffer.\<close>

definition float_at :: "byte list \<Rightarrow> nat \<Rightarrow> pyfloat" where
  "float_at buf k =
     float_of_bits
       (((unat (buf ! k) * 256 + unat (buf ! (k + 1))) * 256 + unat (buf ! (k + 2))) * 256
          + unat (buf ! (k + 3)))"


subsection \<open>Simulated devices for the worked examples\<close>

text \<open>A device whose whole answer \<open>bs\<close> is waiting at the first pass of the loop.\<close>

definition answer :: "byte list \<Rightarrow> exchange" where
  "answer bs =
     \<lparr>write_ok = True,
      reply = \<lparr>reset_fault = False, t_start = 0,
               polls = [\<lparr>now_loop = 0, fault = False, in_waiting = length bs, incoming = bs,
                         now_data = 0, now_check = 0\<rparr>]\<rparr>\<rparr>"

text \<open>A link on which nothing has arrived 0.2 seconds after the request.\<close>

definition silent :: exchange where
  "silent =
     \<lparr>write_ok = True,
      reply = \<lparr>reset_fault = False, t_start = 0,
               polls = [\<lparr>now_loop = 1 / 5, fault = False, in_waiting = 0, incoming = [],
                         now_data = 1 / 5, now_check = 1 / 5\<rparr>]\<rparr>\<rparr>"

text \<open>A port that raises when it is queried, after the request has gone out.\<close>

definition unplugged :: exchange where
  "unplugged =
     \<lparr>write_ok = True,
      reply = \<lparr>reset_fault = False, t_start = 0,
               polls = [\<lparr>now_loop = 0, fault = True, in_waiting = 0, incoming = [],
                         now_data = 0, now_check = 0\<rparr>]\<rparr>\<rparr>"

text \<open>The same exchange on every channel; an exchange on the first channel and silence on the others.\<close>

definition all_channels :: "exchange \<Rightarrow> nat \<Rightarrow> exchange" where
  "all_channels x i = x"

definition first_channel_only :: "exchange \<Rightarrow> nat \<Rightarrow> exchange" where
  "first_channel_only x i = (if i = 0 then x else silent)"

text \<open>The port raises during the exchange of channel \<open>k\<close>; every other channel runs \<open>x\<close>.\<close>

definition raising_at :: "nat \<Rightarrow> exchange \<Rightarrow> nat \<Rightarrow> exchange" where
  "raising_at k x i = (if i = k then unplugged else x)"

definition fresh :: reader where
  "fresh = \<lparr>byte_array = [], written = []\<rparr>"


section \<open>The checksum\<close>

subsection \<open>The unbounded accumulator stays a 16-bit word\<close>

lemma int_low_bit: "(k AND 1 \<noteq> 0) = odd k" for k :: int
  by (simp add: and_one_eq even_iff_mod_2_eq_zero)

lemma odd_uint_iff: "odd (uint w) = bit w 0" for w :: "'a::len word"
proof -
  have "bit (uint w) 0 = bit w 0" by (simp add: bit_uint_iff)
  then show ?thesis by (simp only: bit_0)
qed

lemma uint_drop1: "drop_bit 1 (uint w) = uint (drop_bit 1 w)" for w :: "16 word"
  by (rule bit_eqI) (auto simp add: bit_simps dest: bit_imp_le_length)

lemma crc_shift_uint: "crc_shift (uint w) = uint (spec_round w)"
  unfolding crc_shift_def spec_round_def
  by (simp only: int_low_bit odd_uint_iff uint_drop1 uint_xor if_distrib [of uint] uint_bintrunc)
    simp

lemma crc_shifts_uint: "(crc_shift ^^ n) (uint w) = uint (spec_rounds n w)"
  by (induction n arbitrary: w)
    (simp_all only: funpow_0 funpow_Suc_right o_apply crc_shift_uint spec_rounds.simps)

lemma crc_update_uint: "crc_update (uint w) b = uint (spec_rounds 8 (w XOR ucast b))"
proof -
  have "uint w XOR uint b = uint (w XOR ucast b)"
    by (simp add: uint_xor uint_up_ucast is_up)
  then show ?thesis
    unfolding crc_update_def by (simp only: crc_shifts_uint)
qed

lemma foldl_crc_update_uint:
  "foldl crc_update (uint w) bs = uint (spec_checksum_from w bs)"
  by (induction bs arbitrary: w) (simp_all add: crc_update_uint)

lemma calc_crc16_uint: "calc_crc16 bs = uint (spec_checksum bs)"
proof -
  have "(0xFFFF :: int) = uint (0xFFFF :: 16 word)" by simp
  then show ?thesis
    unfolding calc_crc16_def spec_checksum_def by (simp only: foldl_crc_update_uint)
qed

text \<open>
  C3. For every byte sequence, \<open>calc_crc16\<close> returns the value of the reference
  definition (accumulator \<open>0xFFFF\<close>, each byte XORed into the low byte, then eight rounds
  of shift right with a conditional XOR of \<open>0xA001\<close>), which is a 16-bit value. Being a
  function of its argument alone, it is deterministic and pure.
\<close>

theorem calc_crc16_is_reference:
  "calc_crc16 bs = uint (spec_checksum bs) \<and> 0 \<le> calc_crc16 bs \<and> calc_crc16 bs < 65536"
proof -
  have "uint (spec_checksum bs) < 2 ^ LENGTH(16)" by (rule uint_lt2p)
  then show ?thesis by (simp only: calc_crc16_uint) simp
qed

subsection \<open>The residue of a frame with its checksum\<close>

lemma xor_low_byte: "(c::int) XOR (c AND 0xFF) = push_bit 8 (drop_bit 8 c)"
proof (rule bit_eqI)
  fix n
  have m: "(255::int) = mask 8" by (simp add: mask_eq_exp_minus_1)
  show "bit (c XOR (c AND 0xFF)) n = bit (push_bit 8 (drop_bit 8 c)) n"
    unfolding m by (auto simp add: bit_simps)
qed

lemma crc_shift_push_bit: "crc_shift (push_bit (Suc n) y) = push_bit n y"
proof -
  have "even (push_bit (Suc n) y)" by simp
  moreover have "drop_bit 1 (push_bit (Suc n) y) = push_bit n y"
    by (rule bit_eqI) (auto simp add: bit_simps simp del: push_bit_Suc)
  ultimately show ?thesis
    unfolding crc_shift_def by (simp only: int_low_bit if_False simp_thms)
qed

lemma crc_shifts_push_bit: "(crc_shift ^^ n) (push_bit n y) = y"
  by (induction n)
    (simp_all only: funpow_0 funpow_Suc_right o_apply crc_shift_push_bit push_bit_0_id id_apply)

lemma uint_low_byte: "uint (word_of_int (k AND 0xFF) :: byte) = k AND 0xFF"
proof (rule bit_eqI)
  fix n
  have m: "(255::int) = mask 8" by (simp add: mask_eq_exp_minus_1)
  show "bit (uint (word_of_int (k AND 0xFF) :: byte)) n = bit (k AND 0xFF) n"
    unfolding m by (auto simp add: bit_simps)
qed

lemma crc_update_low: "crc_update c (word_of_int (c AND 0xFF)) = drop_bit 8 c"
  unfolding crc_update_def by (simp only: uint_low_byte xor_low_byte crc_shifts_push_bit)

lemma drop_bit_16_uint: "drop_bit 8 (drop_bit 8 (uint w)) = 0" for w :: "16 word"
  by (rule bit_eqI) (auto simp add: bit_simps dest: bit_imp_le_length)

lemma calc_crc16_append: "calc_crc16 (bs @ cs) = foldl crc_update (calc_crc16 bs) cs"
  by (simp add: calc_crc16_def)

lemma calc_crc16_residue: "calc_crc16 (bs @ crc_bytes (calc_crc16 bs)) = 0"
proof -
  define w where "w = spec_checksum bs"
  have c: "calc_crc16 bs = uint w" by (simp only: w_def calc_crc16_uint)
  show ?thesis
    unfolding calc_crc16_append crc_bytes_def c
    by (simp only: foldl.simps crc_update_low drop_bit_16_uint)
qed

text \<open>
  C4. For every byte sequence \<open>b\<close> with checksum \<open>c\<close>, the checksum of \<open>b\<close> followed by
  the low byte of \<open>c\<close> and then the high byte of \<open>c\<close> is zero.
\<close>

theorem calc_crc16_self_consistent:
  "calc_crc16 (b @ [word_of_int (calc_crc16 b AND 0xFF),
                    word_of_int (drop_bit 8 (calc_crc16 b) AND 0xFF)]) = 0"
  using calc_crc16_residue [of b] by (simp only: crc_bytes_def)

section \<open>The frame builder\<close>

lemma fromhex_space_Cons: "isspace c \<Longrightarrow> fromhex (c # t) = fromhex t"
  by (cases t) simp_all

lemma fromhex_append:
  "fromhex s = Inr xs \<Longrightarrow> fromhex t = Inr ys \<Longrightarrow> fromhex (s @ t) = Inr (xs @ ys)"
proof (induction s arbitrary: xs rule: fromhex.induct)
  case 1
  then show ?case by simp
next
  case (2 c)
  then show ?case by (simp add: fromhex_space_Cons split: if_splits)
next
  case (3 c d cs)
  show ?case
  proof (cases "isspace c")
    case True
    with 3 show ?thesis by simp
  next
    case False
    with 3 show ?thesis
      by (auto split: option.splits sum.splits)
  qed
qed

lemma build_command_bytes:
  assumes "fromhex address = Inr [a]" and "fromhex function = Inr [f]"
    and "fromhex data = Inr payload"
  shows "build_command address function data =
    Inr (a # f # payload @ crc_bytes (calc_crc16 (a # f # payload)))"
proof -
  have "fromhex (function @ data) = Inr ([f] @ payload)"
    using assms(2,3) by (rule fromhex_append)
  with assms(1) have "fromhex (address @ function @ data) = Inr ([a] @ [f] @ payload)"
    by (rule fromhex_append)
  then show ?thesis by (simp add: build_command_def)
qed

text \<open>
  C5. When the strings \<open>address\<close>, \<open>function\<close> and \<open>data\<close> are the hexadecimal text of
  an address byte \<open>a\<close>, a function byte \<open>f\<close> and a payload, \<open>build_command\<close> returns
  the address, the function, the payload, and then the low and the high byte of the
  checksum of these bytes. So the first byte of the frame is the address, the second the
  function, and what lies between them and the last two bytes is the payload.
\<close>

theorem build_command_frame:
  assumes "fromhex address = Inr [a]" and "fromhex function = Inr [f]"
    and "fromhex data = Inr payload"
  shows "\<exists>frame crc. build_command address function data = Inr frame
    \<and> crc = calc_crc16 (a # f # payload)
    \<and> frame = a # f # payload @ [word_of_int (crc AND 0xFF), word_of_int (drop_bit 8 crc AND 0xFF)]
    \<and> frame ! 0 = a \<and> frame ! 1 = f
    \<and> take (length frame - 4) (drop 2 frame) = payload"
  using build_command_bytes [OF assms] by (simp add: crc_bytes_def)

theorem build_command_frame_witness:
  "fromhex ''01'' = Inr [1] \<and> fromhex ''03'' = Inr [3] \<and> fromhex ''10050001'' = Inr [0x10, 5, 0, 1]
   \<and> build_command ''01'' ''03'' ''10050001'' = Inr [1, 3, 0x10, 5, 0, 1, 0x90, 0xCB]"
proof -
  have h1: "fromhex ''01'' = Inr [1]" by (simp add: isspace_def hex_value_def)
  have h2: "fromhex ''03'' = Inr [3]" by (simp add: isspace_def hex_value_def)
  have h3: "fromhex ''10050001'' = Inr [0x10, 5, 0, 1]" by (simp add: isspace_def hex_value_def)
  have c: "calc_crc16 [1, 3, 0x10, 5, 0, 1] = 0xCB90" by code_simp
  from build_command_frame [OF h1 h2 h3] c h1 h2 h3 show ?thesis by auto
qed

section \<open>The transport reader\<close>

lemma exception_response_inj: "exception_response c = exception_response d \<Longrightarrow> c = d"
  by (auto simp add: exception_response_def split: if_splits)

lemma exception_response_neq [simp]:
  "exception_response c \<noteq> Success" "exception_response c \<noteq> NoData"
  "exception_response c \<noteq> ResponseTimeout"
  by (simp_all add: exception_response_def)

lemma read_loop_exception_step:
  assumes "now_loop p - start_time < timeout" and "\<not> fault p" and "in_waiting p \<noteq> 0"
    and "5 \<le> length (buf @ incoming p)" and "(buf @ incoming p) ! 1 AND 0x80 \<noteq> 0"
  shows "read_loop expected_len timeout start_time last_data_time buf (p # ps) =
    Some (Inr (exception_response ((buf @ incoming p) ! 2)), buf @ incoming p)"
  using assms by (simp add: Let_def)

lemma read_loop_exception_final:
  assumes "read_loop expected_len timeout start_time last_data_time buf ps = Some (Inr r, b)"
    and "\<not> (5 \<le> length buf \<and> buf ! 1 AND 0x80 \<noteq> 0)"
    and "5 \<le> length b" and "b ! 1 AND 0x80 \<noteq> 0"
  shows "r = exception_response (b ! 2)"
  using assms
proof (induction ps arbitrary: last_data_time buf)
  case Nil
  then show ?case by simp
next
  case (Cons p ps)
  show ?case
  proof (cases "now_loop p - start_time < timeout \<and> \<not> fault p")
    case False
    with Cons.prems show ?thesis by (auto split: if_splits)
  next
    case run: True
    show ?thesis
    proof (cases "in_waiting p = 0")
      case True
      with run Cons.prems have
        "read_loop expected_len timeout start_time last_data_time buf ps = Some (Inr r, b)
          \<or> b = buf"
        by (auto split: if_splits)
      with Cons.IH [of last_data_time buf] Cons.prems show ?thesis by blast
    next
      case False
      define buf' where "buf' = buf @ incoming p"
      show ?thesis
      proof (cases "5 \<le> length buf' \<and> buf' ! 1 AND 0x80 \<noteq> 0")
        case True
        with run False Cons.prems(1) show ?thesis
          by (auto simp add: Let_def buf'_def)
      next
        case inv: False
        with run False Cons.prems(1) have
          "read_loop expected_len timeout start_time (now_data p) buf' ps = Some (Inr r, b)
            \<or> b = buf'"
          by (auto simp add: Let_def buf'_def split: if_splits)
        with Cons.IH [of "now_data p" buf'] inv Cons.prems(3,4) show ?thesis by blast
      qed
    qed
  qed
qed

lemma read_loop_no_data_step:
  assumes "now_loop p - start_time < timeout" and "\<not> fault p"
    and "buf' = (if in_waiting p \<noteq> 0 then buf @ incoming p else buf)"
    and "t_last = (if in_waiting p \<noteq> 0 then now_data p else last_data_time)"
    and "\<not> (in_waiting p \<noteq> 0 \<and> expected_len \<le> int (length buf'))"
    and "now_check p - t_last > 1 / 10" and "length buf' < 5"
  shows "read_loop expected_len timeout start_time last_data_time buf (p # ps) =
    Some (Inr NoData, buf')"
proof (cases "in_waiting p = 0")
  case True
  with assms show ?thesis by simp
next
  case False
  with assms have "buf' = buf @ incoming p" and "t_last = now_data p"
    and "\<not> expected_len \<le> int (length (buf @ incoming p))"
    and "\<not> 5 \<le> length (buf @ incoming p)" by simp_all
  with assms(1,2,6,7) False show ?thesis by (simp add: Let_def)
qed

lemma read_loop_buffer_grows:
  "read_loop expected_len timeout start_time last_data_time buf ps = Some (r, b)
    \<Longrightarrow> length buf \<le> length b"
proof (induction ps arbitrary: last_data_time buf)
  case Nil
  then show ?case by simp
next
  case (Cons p ps)
  from Cons.prems consider "b = buf" | "b = buf @ incoming p"
    | "read_loop expected_len timeout start_time last_data_time buf ps = Some (r, b)"
    | "read_loop expected_len timeout start_time (now_data p) (buf @ incoming p) ps = Some (r, b)"
    by (auto simp add: Let_def split: if_splits)
  then show ?case
  proof cases
    case 3
    then show ?thesis by (rule Cons.IH)
  next
    case 4
    from Cons.IH [OF this] show ?thesis by simp
  qed simp_all
qed

lemma read_loop_no_data_short:
  "read_loop expected_len timeout start_time last_data_time buf ps = Some (Inr NoData, b)
    \<Longrightarrow> length b < 5"
proof (induction ps arbitrary: last_data_time buf)
  case Nil
  then show ?case by simp
next
  case (Cons p ps)
  from Cons.prems consider "length b < 5"
    | "read_loop expected_len timeout start_time last_data_time buf ps = Some (Inr NoData, b)"
    | "read_loop expected_len timeout start_time (now_data p) (buf @ incoming p) ps
        = Some (Inr NoData, b)"
    by (auto simp add: Let_def split: if_splits)
  then show ?case
  proof cases
    case 2
    then show ?thesis by (rule Cons.IH)
  next
    case 3
    then show ?thesis by (rule Cons.IH)
  qed simp
qed

lemma read_loop_returns:
  "\<exists>p \<in> set ps. \<not> (now_loop p - start_time < timeout)
    \<Longrightarrow> read_loop expected_len timeout start_time last_data_time buf ps \<noteq> None"
  by (induction ps arbitrary: last_data_time buf) (auto simp add: Let_def)


lemma read_response_Inr:
  assumes "read_response expected_len timeout c rd = Some (Inr r, rd')"
  shows "\<not> reset_fault c"
    and "read_loop expected_len timeout (t_start c) (t_start c) [] (polls c)
          = Some (Inr r, byte_array rd')"
    and "rd' = rd\<lparr>byte_array := byte_array rd'\<rparr>"
  using assms by (auto simp add: read_response_def split: if_splits)

lemma read_response_written:
  "read_response expected_len timeout c rd = Some (r, rd') \<Longrightarrow> written rd' = written rd"
  by (auto simp add: read_response_def split: if_splits)

text \<open>
  C1. In every pass of the loop in which bytes arrive and the buffer then holds at least
  five bytes with the high bit of its second byte set, \<open>read_response\<close> returns at once
  the device exception for the third byte, whatever \<open>expected_len\<close> is. Hence a call that
  returns a classification with such a buffer returns that exception, never success. The
  exception returned determines the error code.
\<close>

theorem read_response_device_exception:
  "(now_loop p - start_time < timeout \<and> \<not> fault p \<and> in_waiting p \<noteq> 0
      \<and> 5 \<le> length (buf @ incoming p) \<and> (buf @ incoming p) ! 1 AND 0x80 \<noteq> 0
    \<longrightarrow> read_loop expected_len timeout start_time last_data_time buf (p # ps)
          = Some (Inr (exception_response ((buf @ incoming p) ! 2)), buf @ incoming p))
   \<and> (read_response expected_len' timeout' c rd = Some (Inr r, rd')
        \<and> 5 \<le> length (byte_array rd') \<and> byte_array rd' ! 1 AND 0x80 \<noteq> 0
    \<longrightarrow> r = exception_response (byte_array rd' ! 2) \<and> r \<noteq> Success)
   \<and> (exception_response code = exception_response code' \<longrightarrow> code = code')"
proof (intro conjI impI)
  assume "now_loop p - start_time < timeout \<and> \<not> fault p \<and> in_waiting p \<noteq> 0
      \<and> 5 \<le> length (buf @ incoming p) \<and> (buf @ incoming p) ! 1 AND 0x80 \<noteq> 0"
  then show "read_loop expected_len timeout start_time last_data_time buf (p # ps)
          = Some (Inr (exception_response ((buf @ incoming p) ! 2)), buf @ incoming p)"
    by (intro read_loop_exception_step) simp_all
next
  assume a: "read_response expected_len' timeout' c rd = Some (Inr r, rd')
        \<and> 5 \<le> length (byte_array rd') \<and> byte_array rd' ! 1 AND 0x80 \<noteq> 0"
  then have "read_response expected_len' timeout' c rd = Some (Inr r, rd')" by simp
  then have "read_loop expected_len' timeout' (t_start c) (t_start c) [] (polls c)
          = Some (Inr r, byte_array rd')"
    by (rule read_response_Inr(2))
  from read_loop_exception_final [OF this] a
  show e: "r = exception_response (byte_array rd' ! 2)" by simp
  show "r \<noteq> Success" unfolding e by simp
next
  assume "exception_response code = exception_response code'"
  then show "code = code'" by (rule exception_response_inj)
qed

theorem read_response_device_exception_witness:
  "read_loop 5 1 0 0 []
     [\<lparr>now_loop = 0, fault = False, in_waiting = 5, incoming = [1, 0x83, 2, 0xC0, 0xF1],
       now_data = 0, now_check = 0\<rparr>]
     = Some (Inr IllegalDataAddress, [1, 0x83, 2, 0xC0, 0xF1])
   \<and> read_response 4106 1
     \<lparr>reset_fault = False, t_start = 0, polls =
       [\<lparr>now_loop = 0, fault = False, in_waiting = 5, incoming = [1, 0x83, 2, 0xC0, 0xF1],
         now_data = 0, now_check = 0\<rparr>]\<rparr>
     \<lparr>byte_array = [], written = []\<rparr>
     = Some (Inr IllegalDataAddress, \<lparr>byte_array = [1, 0x83, 2, 0xC0, 0xF1], written = []\<rparr>)
   \<and> IllegalDataAddress = exception_response ([1, 0x83, 2, 0xC0, 0xF1] ! 2)"
  using
    read_response_device_exception [where p = "\<lparr>now_loop = 0, fault = False, in_waiting = 5,
      incoming = [1, 0x83, 2, 0xC0, 0xF1], now_data = 0, now_check = 0\<rparr>"
      and start_time = 0 and timeout = 1 and buf = "[]" and expected_len = 5
      and last_data_time = 0 and ps = "[]" and code = 2 and code' = 2
      and expected_len' = 4106 and timeout' = 1
      and c = "\<lparr>reset_fault = False, t_start = 0, polls =
       [\<lparr>now_loop = 0, fault = False, in_waiting = 5, incoming = [1, 0x83, 2, 0xC0, 0xF1],
         now_data = 0, now_check = 0\<rparr>]\<rparr>"
      and rd = "\<lparr>byte_array = [], written = []\<rparr>" and r = IllegalDataAddress
      and rd' = "\<lparr>byte_array = [1, 0x83, 2, 0xC0, 0xF1], written = []\<rparr>"]
  by (simp add: exception_response_def read_response_def)

text \<open>
  C2. In every pass of the loop that reaches the silence check with more than 0.1 seconds
  since the last arrival and fewer than five bytes in the buffer, \<open>read_response\<close>
  returns no-data. From a buffer of five bytes or more the loop never returns no-data, and
  a call that returns no-data ends with fewer than five bytes.
\<close>

theorem read_response_no_data:
  "(now_loop p - start_time < timeout \<and> \<not> fault p
      \<and> buf' = (if in_waiting p \<noteq> 0 then buf @ incoming p else buf)
      \<and> t_last = (if in_waiting p \<noteq> 0 then now_data p else last_data_time)
      \<and> \<not> (in_waiting p \<noteq> 0 \<and> expected_len \<le> int (length buf'))
      \<and> now_check p - t_last > 1 / 10 \<and> length buf' < 5
    \<longrightarrow> read_loop expected_len timeout start_time last_data_time buf (p # ps)
          = Some (Inr NoData, buf'))
   \<and> (5 \<le> length buf_b
    \<longrightarrow> read_loop expected_len_b timeout_b start_time_b last_b buf_b ps_b \<noteq> Some (Inr NoData, b))
   \<and> (read_response expected_len_c timeout_c c rd = Some (Inr NoData, rd')
    \<longrightarrow> length (byte_array rd') < 5)"
proof (intro conjI impI)
  assume "now_loop p - start_time < timeout \<and> \<not> fault p
      \<and> buf' = (if in_waiting p \<noteq> 0 then buf @ incoming p else buf)
      \<and> t_last = (if in_waiting p \<noteq> 0 then now_data p else last_data_time)
      \<and> \<not> (in_waiting p \<noteq> 0 \<and> expected_len \<le> int (length buf'))
      \<and> now_check p - t_last > 1 / 10 \<and> length buf' < 5"
  then show "read_loop expected_len timeout start_time last_data_time buf (p # ps)
          = Some (Inr NoData, buf')"
    by (intro read_loop_no_data_step [where t_last = t_last]) blast+
next
  assume long: "5 \<le> length buf_b"
  show "read_loop expected_len_b timeout_b start_time_b last_b buf_b ps_b \<noteq> Some (Inr NoData, b)"
  proof
    assume r: "read_loop expected_len_b timeout_b start_time_b last_b buf_b ps_b = Some (Inr NoData, b)"
    from read_loop_no_data_short [OF r] read_loop_buffer_grows [OF r] long
    show False by simp
  qed
next
  assume "read_response expected_len_c timeout_c c rd = Some (Inr NoData, rd')"
  then have "read_loop expected_len_c timeout_c (t_start c) (t_start c) [] (polls c)
          = Some (Inr NoData, byte_array rd')"
    by (rule read_response_Inr(2))
  then show "length (byte_array rd') < 5" by (rule read_loop_no_data_short)
qed

theorem read_response_no_data_witness:
  "read_loop 7 1 0 0 [1, 3]
     [\<lparr>now_loop = 1 / 5, fault = False, in_waiting = 0, incoming = [],
       now_data = 1 / 5, now_check = 1 / 5\<rparr>]
     = Some (Inr NoData, [1, 3])
   \<and> read_loop 7 1 0 0 [1, 3, 2, 0, 0]
     [\<lparr>now_loop = 1 / 5, fault = False, in_waiting = 0, incoming = [],
       now_data = 1 / 5, now_check = 1 / 5\<rparr>]
     \<noteq> Some (Inr NoData, [1, 3, 2, 0, 0])
   \<and> read_response 7 1
     \<lparr>reset_fault = False, t_start = 0, polls =
       [\<lparr>now_loop = 1 / 5, fault = False, in_waiting = 0, incoming = [],
         now_data = 1 / 5, now_check = 1 / 5\<rparr>]\<rparr>
     \<lparr>byte_array = [], written = []\<rparr>
     = Some (Inr NoData, \<lparr>byte_array = [], written = []\<rparr>)
   \<and> length (byte_array \<lparr>byte_array = [], written = []\<rparr>) < 5"
  using
    read_response_no_data [where p = "\<lparr>now_loop = 1 / 5, fault = False, in_waiting = 0,
      incoming = [], now_data = 1 / 5, now_check = 1 / 5\<rparr>"
      and start_time = 0 and timeout = 1 and buf = "[1, 3]" and buf' = "[1, 3]"
      and expected_len = 7 and last_data_time = 0 and t_last = 0 and ps = "[]"
      and buf_b = "[1, 3, 2, 0, 0]" and expected_len_b = 7 and timeout_b = 1 and start_time_b = 0
      and last_b = 0 and b = "[1, 3, 2, 0, 0]"
      and ps_b = "[\<lparr>now_loop = 1 / 5, fault = False, in_waiting = 0, incoming = [],
         now_data = 1 / 5, now_check = 1 / 5\<rparr>]"
      and expected_len_c = 7 and timeout_c = 1
      and c = "\<lparr>reset_fault = False, t_start = 0, polls =
       [\<lparr>now_loop = 1 / 5, fault = False, in_waiting = 0, incoming = [],
         now_data = 1 / 5, now_check = 1 / 5\<rparr>]\<rparr>"
      and rd = "\<lparr>byte_array = [], written = []\<rparr>"
      and rd' = "\<lparr>byte_array = [], written = []\<rparr>"]
  by (simp add: read_response_def)


section \<open>The operation sequencer\<close>

subsection \<open>One exchange\<close>

lemma read_loop_success_length:
  "read_loop expected_len timeout start_time last_data_time buf ps = Some (Inr Success, b)
    \<Longrightarrow> expected_len \<le> int (length b)"
proof (induction ps arbitrary: last_data_time buf)
  case Nil
  then show ?case by simp
next
  case (Cons p ps)
  from Cons.prems consider "expected_len \<le> int (length b)"
    | "read_loop expected_len timeout start_time last_data_time buf ps = Some (Inr Success, b)"
    | "read_loop expected_len timeout start_time (now_data p) (buf @ incoming p) ps
        = Some (Inr Success, b)"
    by (auto simp add: Let_def split: if_splits)
  then show ?case
  proof cases
    case 2
    then show ?thesis by (rule Cons.IH)
  next
    case 3
    then show ?thesis by (rule Cons.IH)
  qed simp
qed

lemma exchange_outcome_Answered_length:
  "exchange_outcome expected_len timeout x = Answered buf \<Longrightarrow> expected_len \<le> int (length buf)"
  by (auto simp add: exchange_outcome_def split: if_splits option.splits sum.splits
      dest: read_loop_success_length)

text \<open>One exchange through \<open>send_command\<close> and \<open>read_response\<close>.\<close>

lemma send_command_frame:
  "build_command address function data = Inr frame \<Longrightarrow>
    send_command ok address function data rd = (ok, rd\<lparr>written := written rd @ [frame]\<rparr>)"
  by (simp add: send_command_def)

lemma read_register_outcome:
  assumes "build_command ''01'' ''03'' data = Inr frame"
  shows "case exchange_outcome 7 1 x of
      Pending \<Rightarrow> read_register data x rd = None
    | Raised \<Rightarrow> (\<exists>e rd'. read_register data x rd = Some (Inl e, rd')
        \<and> written rd' = written rd @ [frame])
    | Refused \<Rightarrow> (\<exists>rd'. read_register data x rd = Some (Inr None, rd')
        \<and> written rd' = written rd @ [frame])
    | Answered buf \<Rightarrow> (\<exists>rd'. read_register data x rd = Some (Inr (Some (register_value buf)), rd')
        \<and> written rd' = written rd @ [frame])"
proof (cases "write_ok x")
  case False
  then show ?thesis
    by (simp add: exchange_outcome_def read_register_def send_command_frame [OF assms])
next
  case w: True
  show ?thesis
  proof (cases "reset_fault (reply x)")
    case True
    with w show ?thesis
      by (simp add: exchange_outcome_def read_register_def send_command_frame [OF assms]
          read_response_def)
  next
    case r: False
    show ?thesis
    proof (cases "read_loop 7 1 (t_start (reply x)) (t_start (reply x)) [] (polls (reply x))")
      case None
      with w r show ?thesis
        by (simp add: exchange_outcome_def read_register_def send_command_frame [OF assms]
            read_response_def)
    next
      case (Some a)
      obtain res b where a: "a = (res, b)" by (cases a)
      show ?thesis
      proof (cases res)
        case (Inl e)
        with w r Some a show ?thesis
          by (simp add: exchange_outcome_def read_register_def send_command_frame [OF assms]
              read_response_def)
      next
        case (Inr st)
        show ?thesis
        proof (cases "st = Success")
          case True
          with Some a Inr have "7 \<le> int (length b)"
            by (auto dest: read_loop_success_length)
          with w r Some a Inr True show ?thesis
            by (simp add: exchange_outcome_def read_register_def send_command_frame [OF assms]
                read_response_def)
        next
          case False
          with w r Some a Inr show ?thesis
            by (simp add: exchange_outcome_def read_register_def send_command_frame [OF assms]
                read_response_def)
        qed
      qed
    qed
  qed
qed

lemma scan_requests:
  "\<exists>frame. build_command ''01'' ''03'' ''10050001'' = Inr frame \<and> frame ! 1 = 3"
  "\<exists>frame. build_command ''01'' ''03'' ''10060001'' = Inr frame \<and> frame ! 1 = 3"
  "\<exists>frame. build_command ''01'' ''03'' ''10070001'' = Inr frame \<and> frame ! 1 = 3"
  by (simp_all add: build_command_def isspace_def hex_value_def)


lemma read_register_written:
  assumes "build_command ''01'' ''03'' data = Inr frame"
    and "read_register data x rd = Some (r, rd')"
  shows "written rd' = written rd @ [frame]"
  using read_register_outcome [OF assms(1), of x rd] assms(2)
  by (cases "exchange_outcome 7 1 x") auto

lemma read_register_Answered:
  assumes "build_command ''01'' ''03'' data = Inr frame"
    and "exchange_outcome 7 1 x = Answered buf"
  obtains rd' where "read_register data x rd = Some (Inr (Some (register_value buf)), rd')"
  using read_register_outcome [OF assms(1), of x rd] assms(2) by auto

lemma read_register_failed:
  assumes "build_command ''01'' ''03'' data = Inr frame"
    and "failed (exchange_outcome 7 1 x)"
  obtains rd' where "read_register data x rd = Some (Inr None, rd')"
    | e rd' where "read_register data x rd = Some (Inl e, rd')"
  using read_register_outcome [OF assms(1), of x rd] assms(2)
  by (cases "exchange_outcome 7 1 x") (auto simp add: failed_def)

subsection \<open>Scan parameters\<close>

lemma read_scan_parameters_all_answered:
  assumes "exchange_outcome 7 1 x1 = Answered b1" and "exchange_outcome 7 1 x2 = Answered b2"
    and "exchange_outcome 7 1 x3 = Answered b3"
  shows "\<exists>rd'. read_scan_parameters x1 x2 x3 rd =
    Some ((1520 + of_int (register_value b1) / 1000,
           1520 + of_int (register_value b2) / 1000,
           of_int (register_value b3) / 1000), rd')"
proof -
  from scan_requests obtain f1 f2 f3 where
    f: "build_command ''01'' ''03'' ''10050001'' = Inr f1"
       "build_command ''01'' ''03'' ''10060001'' = Inr f2"
       "build_command ''01'' ''03'' ''10070001'' = Inr f3" by blast
  from read_register_Answered [OF f(1) assms(1)] obtain rd1 where
    r1: "read_register ''10050001'' x1 rd = Some (Inr (Some (register_value b1)), rd1)" .
  from read_register_Answered [OF f(2) assms(2)] obtain rd2 where
    r2: "read_register ''10060001'' x2 rd1 = Some (Inr (Some (register_value b2)), rd2)" .
  from read_register_Answered [OF f(3) assms(3)] obtain rd3 where
    r3: "read_register ''10070001'' x3 rd2 = Some (Inr (Some (register_value b3)), rd3)" .
  show ?thesis
    by (simp add: read_scan_parameters_def read_scan_parameters_try_def r1 r2 r3)
qed

lemma read_scan_parameters_fails:
  assumes "scan_fails x1 x2 x3"
  shows "\<exists>rd'. read_scan_parameters x1 x2 x3 rd = Some ((0, 0, 0), rd')"
proof -
  from scan_requests obtain f1 f2 f3 where
    f: "build_command ''01'' ''03'' ''10050001'' = Inr f1"
       "build_command ''01'' ''03'' ''10060001'' = Inr f2"
       "build_command ''01'' ''03'' ''10070001'' = Inr f3" by blast
  show ?thesis
  proof (cases "exchange_outcome 7 1 x1")
    case (Answered b1)
    from read_register_Answered [OF f(1) Answered] obtain rd1 where
      r1: "read_register ''10050001'' x1 rd = Some (Inr (Some (register_value b1)), rd1)" .
    show ?thesis
    proof (cases "exchange_outcome 7 1 x2")
      case (Answered b2)
      from read_register_Answered [OF f(2) Answered] obtain rd2 where
        r2: "read_register ''10060001'' x2 rd1 = Some (Inr (Some (register_value b2)), rd2)" .
      from assms \<open>exchange_outcome 7 1 x1 = Answered b1\<close> Answered
      have "failed (exchange_outcome 7 1 x3)" by (simp add: scan_fails_def)
      from read_register_failed [OF f(3) this, of rd2] show ?thesis
        by cases (simp_all add: read_scan_parameters_def read_scan_parameters_try_def r1 r2)
    next
      case Refused
      then have "failed (exchange_outcome 7 1 x2)" by (simp add: failed_def)
      from read_register_failed [OF f(2) this, of rd1] show ?thesis
        by cases (simp_all add: read_scan_parameters_def read_scan_parameters_try_def r1)
    next
      case Raised
      then have "failed (exchange_outcome 7 1 x2)" by (simp add: failed_def)
      from read_register_failed [OF f(2) this, of rd1] show ?thesis
        by cases (simp_all add: read_scan_parameters_def read_scan_parameters_try_def r1)
    next
      case Pending
      with assms \<open>exchange_outcome 7 1 x1 = Answered b1\<close> show ?thesis
        by (simp add: scan_fails_def failed_def)
    qed
  next
    case Refused
    then have "failed (exchange_outcome 7 1 x1)" by (simp add: failed_def)
    from read_register_failed [OF f(1) this, of rd] show ?thesis
      by cases (simp_all add: read_scan_parameters_def read_scan_parameters_try_def)
  next
    case Raised
    then have "failed (exchange_outcome 7 1 x1)" by (simp add: failed_def)
    from read_register_failed [OF f(1) this, of rd] show ?thesis
      by cases (simp_all add: read_scan_parameters_def read_scan_parameters_try_def)
  next
    case Pending
    with assms show ?thesis by (simp add: scan_fails_def failed_def)
  qed
qed

lemma read_scan_parameters_written:
  assumes "read_scan_parameters x1 x2 x3 rd = Some (params, rd')"
  shows "\<exists>fs. written rd' = written rd @ fs \<and> length fs \<le> 3 \<and> (\<forall>f \<in> set fs. f ! 1 = 3)"
proof -
  from scan_requests obtain f1 f2 f3 where
    f: "build_command ''01'' ''03'' ''10050001'' = Inr f1"
       "build_command ''01'' ''03'' ''10060001'' = Inr f2"
       "build_command ''01'' ''03'' ''10070001'' = Inr f3"
    and c: "f1 ! 1 = 3" "f2 ! 1 = 3" "f3 ! 1 = 3" by blast
  note w = read_register_written [OF f(1)] read_register_written [OF f(2)]
    read_register_written [OF f(3)]
  from assms have "written rd' = written rd @ [f1] \<or> written rd' = written rd @ [f1, f2]
    \<or> written rd' = written rd @ [f1, f2, f3]"
    by (auto simp add: read_scan_parameters_def read_scan_parameters_try_def
        split: option.splits sum.splits prod.splits dest!: w)
  with c show ?thesis by auto
qed

lemma register_value_bytes: "register_value buf = 256 * uint (buf ! 3) + uint (buf ! 4)"
proof -
  have "push_bit 8 (uint (buf ! 3)) OR uint (buf ! 4) = push_bit 8 (uint (buf ! 3)) + uint (buf ! 4)"
    by (rule disjunctive_add_eq_or [symmetric], rule bit_eqI)
      (auto simp add: bit_simps dest: bit_imp_le_length)
  then show ?thesis by (simp add: register_value_def push_bit_eq_mult)
qed


lemma register_value_nonneg: "0 \<le> register_value buf"
  by (simp add: register_value_bytes)

lemma exchange_outcome_answer:
  assumes "bs \<noteq> []" and "0 < timeout" and "expected_len \<le> int (length bs)"
    and "\<not> (5 \<le> length bs \<and> bs ! 1 AND 0x80 \<noteq> 0)"
  shows "exchange_outcome expected_len timeout (answer bs) = Answered bs"
  using assms by (auto simp add: exchange_outcome_def answer_def Let_def)

lemma exchange_outcome_silent: "0 < timeout \<Longrightarrow> exchange_outcome expected_len timeout silent = Refused"
  by (simp add: exchange_outcome_def silent_def)

lemma exchange_outcome_unplugged:
  "0 < timeout \<Longrightarrow> exchange_outcome expected_len timeout unplugged = Raised"
  by (simp add: exchange_outcome_def unplugged_def)

text \<open>
  C6. When the three register reads are answered, \<open>read_scan_parameters\<close> returns
  \<open>1520 + raw / 1000\<close> for the start and the stop register and \<open>raw / 1000\<close> for the
  step register, where \<open>raw\<close> is the 16-bit value \<open>256 * buf[3] + buf[4]\<close> of the
  answer. The raw registers 7000, 48000 and 20 give 1527, 1568 and 0.02.
\<close>

theorem read_scan_parameters_decodes:
  assumes "exchange_outcome 7 1 x1 = Answered b1" and "exchange_outcome 7 1 x2 = Answered b2"
    and "exchange_outcome 7 1 x3 = Answered b3"
  shows "map_option fst (read_scan_parameters x1 x2 x3 rd) =
      Some (1520 + of_int (register_value b1) / 1000,
            1520 + of_int (register_value b2) / 1000,
            of_int (register_value b3) / 1000)
    \<and> register_value b1 = 256 * uint (b1 ! 3) + uint (b1 ! 4)
    \<and> register_value b2 = 256 * uint (b2 ! 3) + uint (b2 ! 4)
    \<and> register_value b3 = 256 * uint (b3 ! 3) + uint (b3 ! 4)"
  using read_scan_parameters_all_answered [OF assms, of rd]
  by (auto simp add: register_value_bytes)

theorem read_scan_parameters_decodes_witness:
  "exchange_outcome 7 1 (answer [1, 3, 2, 0x1B, 0x58, 0, 0]) = Answered [1, 3, 2, 0x1B, 0x58, 0, 0]
   \<and> exchange_outcome 7 1 (answer [1, 3, 2, 0xBB, 0x80, 0, 0]) = Answered [1, 3, 2, 0xBB, 0x80, 0, 0]
   \<and> exchange_outcome 7 1 (answer [1, 3, 2, 0, 0x14, 0, 0]) = Answered [1, 3, 2, 0, 0x14, 0, 0]
   \<and> register_value [1, 3, 2, 0x1B, 0x58, 0, 0] = 7000
   \<and> register_value [1, 3, 2, 0xBB, 0x80, 0, 0] = 48000
   \<and> register_value [1, 3, 2, 0, 0x14, 0, 0] = 20
   \<and> map_option fst
        (read_scan_parameters (answer [1, 3, 2, 0x1B, 0x58, 0, 0])
           (answer [1, 3, 2, 0xBB, 0x80, 0, 0]) (answer [1, 3, 2, 0, 0x14, 0, 0]) fresh)
      = Some (1527, 1568, 1 / 50)"
proof -
  have o1: "exchange_outcome 7 1 (answer [1, 3, 2, 0x1B, 0x58, 0, 0])
      = Answered [1, 3, 2, 0x1B, 0x58, 0, 0]"
    by (rule exchange_outcome_answer) simp_all
  have o2: "exchange_outcome 7 1 (answer [1, 3, 2, 0xBB, 0x80, 0, 0])
      = Answered [1, 3, 2, 0xBB, 0x80, 0, 0]"
    by (rule exchange_outcome_answer) simp_all
  have o3: "exchange_outcome 7 1 (answer [1, 3, 2, 0, 0x14, 0, 0])
      = Answered [1, 3, 2, 0, 0x14, 0, 0]"
    by (rule exchange_outcome_answer) simp_all
  have r: "register_value [1, 3, 2, 0x1B, 0x58, 0, 0] = 7000"
    "register_value [1, 3, 2, 0xBB, 0x80, 0, 0] = 48000"
    "register_value [1, 3, 2, 0, 0x14, 0, 0] = 20"
    by (simp_all add: register_value_bytes)
  from read_scan_parameters_decodes [OF o1 o2 o3, of fresh]
  have "map_option fst
        (read_scan_parameters (answer [1, 3, 2, 0x1B, 0x58, 0, 0])
           (answer [1, 3, 2, 0xBB, 0x80, 0, 0]) (answer [1, 3, 2, 0, 0x14, 0, 0]) fresh)
      = Some (1527, 1568, 1 / 50)"
    unfolding r by (simp del: map_option_eq_Some)
  with o1 o2 o3 r show ?thesis by (intro conjI)
qed

text \<open>
  C10, as stated, fails in its last part: a device whose three registers are all zero
  makes \<open>read_scan_parameters\<close> return \<open>(1520, 1520, 0)\<close>, which is not the
  \<open>(0, 0, 0)\<close> of a failed read.
\<close>

theorem read_scan_parameters_zero_registers_counterexample:
  "map_option fst
     (read_scan_parameters (answer [1, 3, 2, 0, 0, 0, 0]) (answer [1, 3, 2, 0, 0, 0, 0])
        (answer [1, 3, 2, 0, 0, 0, 0]) fresh) = Some (1520, 1520, 0)
   \<and> map_option fst (read_scan_parameters silent silent silent fresh) = Some (0, 0, 0)
   \<and> (1520, 1520, 0) \<noteq> ((0, 0, 0) :: rat \<times> rat \<times> rat)"
proof -
  have o: "exchange_outcome 7 1 (answer [1, 3, 2, 0, 0, 0, 0]) = Answered [1, 3, 2, 0, 0, 0, 0]"
    by (rule exchange_outcome_answer) simp_all
  have z: "register_value [1, 3, 2, 0, 0, 0, 0] = 0"
    by (simp add: register_value_bytes)
  have "scan_fails silent silent silent"
    by (simp add: scan_fails_def exchange_outcome_silent failed_def)
  from read_scan_parameters_fails [OF this, of fresh]
    read_scan_parameters_all_answered [OF o o o, of fresh] z
  show ?thesis by auto
qed

text \<open>
  C10, amended. On every failure path (the command is not sent, the classification is not
  success, or an exception is raised inside the \<open>try\<close> block) \<open>read_scan_parameters\<close>
  returns exactly \<open>(0, 0, 0)\<close>, as a value; a buffer classified as success has at least
  seven bytes. A read that succeeds returns a start and a stop of at least 1520, so its
  result is never \<open>(0, 0, 0)\<close>: all-zero raw registers give \<open>(1520, 1520, 0)\<close>, and only
  the step coincides with the failure value.
\<close>

theorem read_scan_parameters_failure_sentinel:
  "(scan_fails x1 x2 x3 \<longrightarrow>
      map_option fst (read_scan_parameters x1 x2 x3 rd) = Some (0, 0, 0))
   \<and> (exchange_outcome 7 1 x = Answered b \<longrightarrow> 7 \<le> length b)
   \<and> (exchange_outcome 7 1 x1 = Answered b1 \<and> exchange_outcome 7 1 x2 = Answered b2
        \<and> exchange_outcome 7 1 x3 = Answered b3 \<longrightarrow>
      (\<exists>start_wl stop_wl step_wl.
         map_option fst (read_scan_parameters x1 x2 x3 rd) = Some (start_wl, stop_wl, step_wl)
         \<and> 1520 \<le> start_wl \<and> 1520 \<le> stop_wl \<and> 0 \<le> step_wl
         \<and> (start_wl, stop_wl, step_wl) \<noteq> (0, 0, 0)
         \<and> (register_value b1 = 0 \<and> register_value b2 = 0 \<and> register_value b3 = 0
              \<longrightarrow> (start_wl, stop_wl, step_wl) = (1520, 1520, 0))))"
proof (intro conjI impI)
  assume "scan_fails x1 x2 x3"
  from read_scan_parameters_fails [OF this, of rd]
  show "map_option fst (read_scan_parameters x1 x2 x3 rd) = Some (0, 0, 0)" by auto
next
  assume "exchange_outcome 7 1 x = Answered b"
  from exchange_outcome_Answered_length [OF this] show "7 \<le> length b" by simp
next
  assume a: "exchange_outcome 7 1 x1 = Answered b1 \<and> exchange_outcome 7 1 x2 = Answered b2
        \<and> exchange_outcome 7 1 x3 = Answered b3"
  then have "\<exists>rd'. read_scan_parameters x1 x2 x3 rd =
    Some ((1520 + of_int (register_value b1) / 1000,
           1520 + of_int (register_value b2) / 1000,
           of_int (register_value b3) / 1000), rd')"
    by (intro read_scan_parameters_all_answered) simp_all
  then have "map_option fst (read_scan_parameters x1 x2 x3 rd) =
    Some (1520 + of_int (register_value b1) / 1000,
           1520 + of_int (register_value b2) / 1000,
           of_int (register_value b3) / 1000)" by auto
  moreover have "(0::rat) \<le> of_int (register_value b1) / 1000"
    "(0::rat) \<le> of_int (register_value b2) / 1000" "(0::rat) \<le> of_int (register_value b3) / 1000"
    by (simp_all add: register_value_nonneg)
  ultimately show "\<exists>start_wl stop_wl step_wl.
         map_option fst (read_scan_parameters x1 x2 x3 rd) = Some (start_wl, stop_wl, step_wl)
         \<and> 1520 \<le> start_wl \<and> 1520 \<le> stop_wl \<and> 0 \<le> step_wl
         \<and> (start_wl, stop_wl, step_wl) \<noteq> (0, 0, 0)
         \<and> (register_value b1 = 0 \<and> register_value b2 = 0 \<and> register_value b3 = 0
              \<longrightarrow> (start_wl, stop_wl, step_wl) = (1520, 1520, 0))"
    by auto
qed

theorem read_scan_parameters_failure_sentinel_witness:
  "scan_fails silent silent silent
   \<and> map_option fst (read_scan_parameters silent silent silent fresh) = Some (0, 0, 0)
   \<and> scan_fails (answer [1, 3, 2, 0, 0, 0, 0]) unplugged silent
   \<and> map_option fst (read_scan_parameters (answer [1, 3, 2, 0, 0, 0, 0]) unplugged silent fresh)
       = Some (0, 0, 0)
   \<and> exchange_outcome 7 1 (answer [1, 3, 2, 0, 0, 0, 0]) = Answered [1, 3, 2, 0, 0, 0, 0]
   \<and> 7 \<le> length [1, 3, 2, 0, 0, 0, 0 :: byte]
   \<and> map_option fst
        (read_scan_parameters (answer [1, 3, 2, 0, 0, 0, 0]) (answer [1, 3, 2, 0, 0, 0, 0])
           (answer [1, 3, 2, 0, 0, 0, 0]) fresh) = Some (1520, 1520, 0)"
proof -
  have o: "exchange_outcome 7 1 (answer [1, 3, 2, 0, 0, 0, 0]) = Answered [1, 3, 2, 0, 0, 0, 0]"
    by (rule exchange_outcome_answer) simp_all
  have z: "register_value [1, 3, 2, 0, 0, 0, 0] = 0"
    by (simp add: register_value_bytes)
  have s1: "scan_fails silent silent silent"
    by (simp add: scan_fails_def exchange_outcome_silent failed_def)
  have s2: "scan_fails (answer [1, 3, 2, 0, 0, 0, 0]) unplugged silent"
    by (simp add: scan_fails_def o exchange_outcome_unplugged failed_def)
  from s1
    read_scan_parameters_failure_sentinel [where ?x1.0 = silent and ?x2.0 = silent
      and ?x3.0 = silent and rd = fresh]
  have r1: "map_option fst (read_scan_parameters silent silent silent fresh) = Some (0, 0, 0)"
    by blast
  from s2
    read_scan_parameters_failure_sentinel [where ?x1.0 = "answer [1, 3, 2, 0, 0, 0, 0]"
      and ?x2.0 = unplugged and ?x3.0 = silent and rd = fresh]
  have r2: "map_option fst
      (read_scan_parameters (answer [1, 3, 2, 0, 0, 0, 0]) unplugged silent fresh)
       = Some (0, 0, 0)"
    by blast
  from o z
    read_scan_parameters_failure_sentinel [where ?x1.0 = "answer [1, 3, 2, 0, 0, 0, 0]"
      and ?x2.0 = "answer [1, 3, 2, 0, 0, 0, 0]" and ?x3.0 = "answer [1, 3, 2, 0, 0, 0, 0]"
      and rd = fresh and ?b1.0 = "[1, 3, 2, 0, 0, 0, 0]" and ?b2.0 = "[1, 3, 2, 0, 0, 0, 0]"
      and ?b3.0 = "[1, 3, 2, 0, 0, 0, 0]"]
  have r3: "map_option fst
        (read_scan_parameters (answer [1, 3, 2, 0, 0, 0, 0]) (answer [1, 3, 2, 0, 0, 0, 0])
           (answer [1, 3, 2, 0, 0, 0, 0]) fresh) = Some (1520, 1520, 0)"
    by metis
  from s1 r1 s2 r2 o r3 show ?thesis by simp
qed


subsection \<open>Spectrum\<close>

lemma expected_length_channel: "4 + 2 * int num_points = 4106"
  by (simp add: num_points_def)

lemma format_04X_values:
  "format_04X 0x2000 = ''2000''" "format_04X 0x3000 = ''3000''"
  "format_04X 0x4000 = ''4000''" "format_04X 0x5000 = ''5000''"
  "format_04X num_points = ''0803''"
  by (simp_all add: format_04X_def upper_hex.simps upper_hex_digit_def num_points_def)

lemma channel_request_frame:
  assumes "base_addr \<in> {0x2000, 0x3000, 0x4000, 0x5000}"
  shows "\<exists>frame. build_command
        (take 2 (''0114'' @ format_04X base_addr @ format_04X num_points))
        (take 2 (drop 2 (''0114'' @ format_04X base_addr @ format_04X num_points)))
        (drop 4 (''0114'' @ format_04X base_addr @ format_04X num_points)) = Inr frame
      \<and> frame ! 1 = 0x14"
proof -
  from assms consider "base_addr = 0x2000" | "base_addr = 0x3000" | "base_addr = 0x4000"
    | "base_addr = 0x5000" by auto
  then show ?thesis
    by cases (simp_all add: format_04X_values build_command_def isspace_def hex_value_def)
qed

lemma channel_request:
  assumes "ch_idx < 4"
  obtains base_addr frame where "channel_base_addrs ch_idx = Some base_addr"
    and "build_command
        (take 2 (''0114'' @ format_04X base_addr @ format_04X num_points))
        (take 2 (drop 2 (''0114'' @ format_04X base_addr @ format_04X num_points)))
        (drop 4 (''0114'' @ format_04X base_addr @ format_04X num_points)) = Inr frame"
    and "frame ! 1 = 0x14"
proof -
  from assms have "ch_idx = 0 \<or> ch_idx = 1 \<or> ch_idx = 2 \<or> ch_idx = 3" by arith
  then obtain base_addr where b: "channel_base_addrs ch_idx = Some base_addr"
    and "base_addr \<in> {0x2000, 0x3000, 0x4000, 0x5000}"
    by (auto simp add: channel_base_addrs_def)
  from channel_request_frame [OF this(2)] b that show ?thesis by blast
qed


lemma read_channels_unfold:
  assumes "ch_idx < 4"
  obtains rd1 where "length (written rd1) = length (written rd) + 1"
    and "read_channels ch (ch_idx # rest) spectrum rd =
      (if \<not> write_ok (ch ch_idx) then read_channels ch rest (spectrum @ [[]]) rd1
       else case read_response 4106 1 (reply (ch ch_idx)) rd1 of
              None \<Rightarrow> None
            | Some (Inl e, rd2) \<Rightarrow> Some (Inl e, rd2)
            | Some (Inr resp_status, rd2) \<Rightarrow>
                if resp_status \<noteq> Success
                then read_channels ch rest (spectrum @ [[]]) rd2
                else read_channels ch rest
                  (spectrum @ [channel_samples (take (2 * num_points) (drop 4 (byte_array rd2)))])
                  rd2)"
proof -
  from channel_request [OF assms] obtain base_addr frame where
    b: "channel_base_addrs ch_idx = Some base_addr"
    and f: "build_command
        (take 2 (''0114'' @ format_04X base_addr @ format_04X num_points))
        (take 2 (drop 2 (''0114'' @ format_04X base_addr @ format_04X num_points)))
        (drop 4 (''0114'' @ format_04X base_addr @ format_04X num_points)) = Inr frame"
    by blast
  show ?thesis
  proof (rule that [of "rd\<lparr>written := written rd @ [frame]\<rparr>"])
    show "length (written (rd\<lparr>written := written rd @ [frame]\<rparr>)) = length (written rd) + 1"
      by simp
    show "read_channels ch (ch_idx # rest) spectrum rd =
      (if \<not> write_ok (ch ch_idx)
       then read_channels ch rest (spectrum @ [[]]) (rd\<lparr>written := written rd @ [frame]\<rparr>)
       else case read_response 4106 1 (reply (ch ch_idx)) (rd\<lparr>written := written rd @ [frame]\<rparr>) of
              None \<Rightarrow> None
            | Some (Inl e, rd2) \<Rightarrow> Some (Inl e, rd2)
            | Some (Inr resp_status, rd2) \<Rightarrow>
                if resp_status \<noteq> Success
                then read_channels ch rest (spectrum @ [[]]) rd2
                else read_channels ch rest
                  (spectrum @ [channel_samples (take (2 * num_points) (drop 4 (byte_array rd2)))])
                  rd2)"
      by (simp only: read_channels.simps b option.case Let_def send_command_frame [OF f]
          prod.case expected_length_channel)
  qed
qed

lemma read_response_outcome:
  assumes "write_ok x"
  shows "case exchange_outcome expected_len timeout x of
      Pending \<Rightarrow> read_response expected_len timeout (reply x) rd = None
    | Raised \<Rightarrow> (\<exists>e rd'. read_response expected_len timeout (reply x) rd = Some (Inl e, rd')
        \<and> written rd' = written rd)
    | Refused \<Rightarrow> (\<exists>r rd'. read_response expected_len timeout (reply x) rd = Some (Inr r, rd')
        \<and> r \<noteq> Success \<and> written rd' = written rd)
    | Answered buf \<Rightarrow>
        read_response expected_len timeout (reply x) rd = Some (Inr Success, rd\<lparr>byte_array := buf\<rparr>)"
  using assms
  by (auto simp add: exchange_outcome_def read_response_def
      split: option.splits sum.splits prod.splits)

lemma read_channels_step:
  assumes "ch_idx < 4" and "exchange_outcome 4106 1 (ch ch_idx) \<noteq> Raised"
    and "exchange_outcome 4106 1 (ch ch_idx) \<noteq> Pending"
  obtains rd' where "length (written rd') = length (written rd) + 1"
    and "read_channels ch (ch_idx # rest) spectrum rd =
      read_channels ch rest
        (spectrum @ [channel_result (exchange_outcome 4106 1 (ch ch_idx))]) rd'"
proof -
  from read_channels_unfold [OF assms(1), of rd ch rest spectrum] obtain rd1 where
    w: "length (written rd1) = length (written rd) + 1"
    and u: "read_channels ch (ch_idx # rest) spectrum rd =
      (if \<not> write_ok (ch ch_idx) then read_channels ch rest (spectrum @ [[]]) rd1
       else case read_response 4106 1 (reply (ch ch_idx)) rd1 of
              None \<Rightarrow> None
            | Some (Inl e, rd2) \<Rightarrow> Some (Inl e, rd2)
            | Some (Inr resp_status, rd2) \<Rightarrow>
                if resp_status \<noteq> Success
                then read_channels ch rest (spectrum @ [[]]) rd2
                else read_channels ch rest
                  (spectrum @ [channel_samples (take (2 * num_points) (drop 4 (byte_array rd2)))])
                  rd2)" by blast
  show ?thesis
  proof (cases "write_ok (ch ch_idx)")
    case False
    then have "exchange_outcome 4106 1 (ch ch_idx) = Refused"
      by (simp add: exchange_outcome_def)
    with False u w that [of rd1] show ?thesis by (simp add: channel_result_def)
  next
    case True
    note o = read_response_outcome [OF True, of 4106 1 rd1]
    show ?thesis
    proof (cases "exchange_outcome 4106 1 (ch ch_idx)")
      case (Answered buf)
      with o have "read_response 4106 1 (reply (ch ch_idx)) rd1
        = Some (Inr Success, rd1\<lparr>byte_array := buf\<rparr>)" by simp
      with True u w Answered that [of "rd1\<lparr>byte_array := buf\<rparr>"] show ?thesis
        by (simp add: channel_result_def)
    next
      case Refused
      with o obtain r rd2 where "read_response 4106 1 (reply (ch ch_idx)) rd1 = Some (Inr r, rd2)"
        and "r \<noteq> Success" and "written rd2 = written rd1" by auto
      with True u w Refused that [of rd2] show ?thesis
        by (simp add: channel_result_def)
    next
      case Raised
      with assms show ?thesis by simp
    next
      case Pending
      with assms show ?thesis by simp
    qed
  qed
qed

lemma read_channels_raised:
  assumes "ch_idx < 4" and "exchange_outcome 4106 1 (ch ch_idx) = Raised"
  shows "\<exists>e rd'. read_channels ch (ch_idx # rest) spectrum rd = Some (Inl e, rd')"
proof -
  from read_channels_unfold [OF assms(1), of rd ch rest spectrum] obtain rd1 where
    u: "read_channels ch (ch_idx # rest) spectrum rd =
      (if \<not> write_ok (ch ch_idx) then read_channels ch rest (spectrum @ [[]]) rd1
       else case read_response 4106 1 (reply (ch ch_idx)) rd1 of
              None \<Rightarrow> None
            | Some (Inl e, rd2) \<Rightarrow> Some (Inl e, rd2)
            | Some (Inr resp_status, rd2) \<Rightarrow>
                if resp_status \<noteq> Success
                then read_channels ch rest (spectrum @ [[]]) rd2
                else read_channels ch rest
                  (spectrum @ [channel_samples (take (2 * num_points) (drop 4 (byte_array rd2)))])
                  rd2)" by blast
  from assms(2) have t: "write_ok (ch ch_idx)"
    by (auto simp add: exchange_outcome_def split: if_splits)
  from read_response_outcome [OF t, of 4106 1 rd1] assms(2) obtain e rd2 where
    "read_response 4106 1 (reply (ch ch_idx)) rd1 = Some (Inl e, rd2)" by auto
  with t u show ?thesis by simp
qed

lemma read_channels_outcomes:
  assumes "\<forall>i \<in> set idxs. i < 4 \<and> exchange_outcome 4106 1 (ch i) \<noteq> Raised
      \<and> exchange_outcome 4106 1 (ch i) \<noteq> Pending"
  shows "\<exists>rd'. read_channels ch idxs spectrum rd =
      Some (Inr (spectrum @ map (\<lambda>i. channel_result (exchange_outcome 4106 1 (ch i))) idxs), rd')
    \<and> length (written rd') = length (written rd) + length idxs"
  using assms
proof (induction idxs arbitrary: spectrum rd)
  case Nil
  then show ?case by simp
next
  case (Cons i idxs)
  then have i: "i < 4" "exchange_outcome 4106 1 (ch i) \<noteq> Raised"
    "exchange_outcome 4106 1 (ch i) \<noteq> Pending" by simp_all
  from read_channels_step [where ch = ch and ch_idx = i and rd = rd and rest = idxs
      and spectrum = spectrum, OF i]
  obtain rd1 where
    w: "length (written rd1) = length (written rd) + 1"
    and s: "read_channels ch (i # idxs) spectrum rd =
      read_channels ch idxs (spectrum @ [channel_result (exchange_outcome 4106 1 (ch i))]) rd1"
    by blast
  from Cons.prems have "\<forall>i \<in> set idxs. i < 4 \<and> exchange_outcome 4106 1 (ch i) \<noteq> Raised
      \<and> exchange_outcome 4106 1 (ch i) \<noteq> Pending" by simp
  from Cons.IH [OF this, of "spectrum @ [channel_result (exchange_outcome 4106 1 (ch i))]" rd1]
    w s show ?case by auto
qed

lemma length_channel_samples: "length (channel_samples data_bytes) = num_points"
  by (simp add: channel_samples_def)

lemma channel_result_length:
  "channel_result out = [] \<or> length (channel_result out) = num_points"
  by (cases out) (simp_all add: channel_result_def length_channel_samples)

lemma channel_result_failed: "failed out \<Longrightarrow> channel_result out = []"
  by (cases out) (simp_all add: channel_result_def failed_def)


lemma channel_indices: "[0..<4] = [0, 1, 2, 3]"
  by (simp add: upt_rec)

lemma read_spectrum_nonpositive_step:
  assumes "read_scan_parameters x1 x2 x3 rd = Some ((start_wl, stop_wl, step_wl), rd1)"
    and "step_wl \<le> 0"
  shows "read_spectrum x1 x2 x3 ch rd = Some (([], []), rd1)"
  using assms by (simp add: read_spectrum_def read_spectrum_try_def)

lemma read_spectrum_positive_step:
  assumes "read_scan_parameters x1 x2 x3 rd = Some ((start_wl, stop_wl, step_wl), rd1)"
    and "0 < step_wl"
  shows "read_spectrum x1 x2 x3 ch rd =
    (case read_channels ch [0..<4] [] rd1 of
       None \<Rightarrow> None
     | Some (Inl e, rd2) \<Rightarrow> Some (([], []), rd2)
     | Some (Inr spectrum, rd2) \<Rightarrow>
         Some ((map (\<lambda>i. start_wl + of_nat i * step_wl) [0..<num_points], spectrum), rd2))"
proof -
  from assms(2) have "\<not> step_wl \<le> 0" by simp
  with assms(1) show ?thesis
    by (simp only: read_spectrum_def read_spectrum_try_def option.case prod.case if_False Let_def
        split: option.split sum.split prod.split) simp
qed

lemma read_spectrum_raised:
  assumes "read_scan_parameters x1 x2 x3 rd = Some ((start_wl, stop_wl, step_wl), rd1)"
    and "0 < step_wl" and "exchange_outcome 4106 1 (ch 0) = Raised"
  shows "map_option fst (read_spectrum x1 x2 x3 ch rd) = Some ([], [])"
proof -
  have "[0..<4] = 0 # [1, 2, 3]" by (simp add: upt_rec)
  with read_channels_raised [of 0 ch "[1, 2, 3]" "[]" rd1] assms(3) obtain e rd2 where
    "read_channels ch [0..<4] [] rd1 = Some (Inl e, rd2)" by auto
  then show ?thesis
    unfolding read_spectrum_positive_step [OF assms(1,2)] by simp
qed


lemma map_option_fst_Some:
  "map_option fst r = Some a \<Longrightarrow> \<exists>b. r = Some (a, b)"
  by (cases r) auto

text \<open>
  C7. When the step returned by \<open>read_scan_parameters\<close> is not positive, and so in
  particular when reading the scan parameters fails, \<open>read_spectrum\<close> returns empty
  wavelengths and empty channel data and leaves the reader as \<open>read_scan_parameters\<close>
  left it: the frames written are the at most three register requests (function code 3),
  and no channel request follows them.
\<close>

theorem read_spectrum_aborts:
  "(map_option fst (read_scan_parameters x1 x2 x3 rd) = Some (start_wl, stop_wl, step_wl)
      \<and> step_wl \<le> 0 \<longrightarrow>
        map_option fst (read_spectrum x1 x2 x3 ch rd) = Some ([], [])
      \<and> map_option snd (read_spectrum x1 x2 x3 ch rd)
          = map_option snd (read_scan_parameters x1 x2 x3 rd)
      \<and> (\<exists>rd' fs. map_option snd (read_spectrum x1 x2 x3 ch rd) = Some rd'
            \<and> written rd' = written rd @ fs \<and> length fs \<le> 3 \<and> (\<forall>f \<in> set fs. f ! 1 = 3)))
   \<and> (scan_fails x1 x2 x3 \<longrightarrow>
        map_option fst (read_scan_parameters x1 x2 x3 rd) = Some (0, 0, 0)
      \<and> map_option fst (read_spectrum x1 x2 x3 ch rd) = Some ([], [])
      \<and> map_option snd (read_spectrum x1 x2 x3 ch rd)
          = map_option snd (read_scan_parameters x1 x2 x3 rd))"
proof (intro conjI impI)
  assume a: "map_option fst (read_scan_parameters x1 x2 x3 rd) = Some (start_wl, stop_wl, step_wl)
      \<and> step_wl \<le> 0"
  then obtain rd1 where
    s: "read_scan_parameters x1 x2 x3 rd = Some ((start_wl, stop_wl, step_wl), rd1)"
    by (auto dest: map_option_fst_Some)
  from a have "step_wl \<le> 0" by simp
  note r = read_spectrum_nonpositive_step [OF s this, of ch]
  from r show "map_option fst (read_spectrum x1 x2 x3 ch rd) = Some ([], [])" by simp
  from r s show "map_option snd (read_spectrum x1 x2 x3 ch rd)
          = map_option snd (read_scan_parameters x1 x2 x3 rd)" by simp
  from read_scan_parameters_written [OF s] r
  show "\<exists>rd' fs. map_option snd (read_spectrum x1 x2 x3 ch rd) = Some rd'
            \<and> written rd' = written rd @ fs \<and> length fs \<le> 3 \<and> (\<forall>f \<in> set fs. f ! 1 = 3)"
    by auto
next
  assume "scan_fails x1 x2 x3"
  from read_scan_parameters_fails [OF this, of rd] obtain rd1 where
    s: "read_scan_parameters x1 x2 x3 rd = Some ((0, 0, 0), rd1)" by blast
  note r = read_spectrum_nonpositive_step [OF s order_refl, of ch]
  from s show "map_option fst (read_scan_parameters x1 x2 x3 rd) = Some (0, 0, 0)" by simp
  from r show "map_option fst (read_spectrum x1 x2 x3 ch rd) = Some ([], [])" by simp
  from r s show "map_option snd (read_spectrum x1 x2 x3 ch rd)
          = map_option snd (read_scan_parameters x1 x2 x3 rd)" by simp
qed

lemma scan_example:
  "map_option fst
     (read_scan_parameters (answer [1, 3, 2, 0x1B, 0x58, 0, 0])
        (answer [1, 3, 2, 0xBB, 0x80, 0, 0]) (answer [1, 3, 2, 0, 0x14, 0, 0]) fresh)
    = Some (1527, 1568, 1 / 50)"
  "map_option fst
     (read_scan_parameters (answer [1, 3, 2, 0x1B, 0x58, 0, 0])
        (answer [1, 3, 2, 0xBB, 0x80, 0, 0]) (answer [1, 3, 2, 0, 0, 0, 0]) fresh)
    = Some (1527, 1568, 0)"
proof -
  have o1: "exchange_outcome 7 1 (answer [1, 3, 2, 0x1B, 0x58, 0, 0])
      = Answered [1, 3, 2, 0x1B, 0x58, 0, 0]"
    by (rule exchange_outcome_answer) simp_all
  have o2: "exchange_outcome 7 1 (answer [1, 3, 2, 0xBB, 0x80, 0, 0])
      = Answered [1, 3, 2, 0xBB, 0x80, 0, 0]"
    by (rule exchange_outcome_answer) simp_all
  have o3: "exchange_outcome 7 1 (answer [1, 3, 2, 0, 0x14, 0, 0])
      = Answered [1, 3, 2, 0, 0x14, 0, 0]"
    by (rule exchange_outcome_answer) simp_all
  have o4: "exchange_outcome 7 1 (answer [1, 3, 2, 0, 0, 0, 0])
      = Answered [1, 3, 2, 0, 0, 0, 0]"
    by (rule exchange_outcome_answer) simp_all
  have r: "register_value [1, 3, 2, 0x1B, 0x58, 0, 0] = 7000"
    "register_value [1, 3, 2, 0xBB, 0x80, 0, 0] = 48000"
    "register_value [1, 3, 2, 0, 0x14, 0, 0] = 20"
    "register_value [1, 3, 2, 0, 0, 0, 0] = 0"
    by (simp_all add: register_value_bytes)
  from read_scan_parameters_all_answered [OF o1 o2 o3, of fresh]
  show "map_option fst
     (read_scan_parameters (answer [1, 3, 2, 0x1B, 0x58, 0, 0])
        (answer [1, 3, 2, 0xBB, 0x80, 0, 0]) (answer [1, 3, 2, 0, 0x14, 0, 0]) fresh)
    = Some (1527, 1568, 1 / 50)"
    unfolding r by auto
  from read_scan_parameters_all_answered [OF o1 o2 o4, of fresh]
  show "map_option fst
     (read_scan_parameters (answer [1, 3, 2, 0x1B, 0x58, 0, 0])
        (answer [1, 3, 2, 0xBB, 0x80, 0, 0]) (answer [1, 3, 2, 0, 0, 0, 0]) fresh)
    = Some (1527, 1568, 0)"
    unfolding r by auto
qed

theorem read_spectrum_aborts_witness:
  "map_option fst
     (read_scan_parameters (answer [1, 3, 2, 0x1B, 0x58, 0, 0])
        (answer [1, 3, 2, 0xBB, 0x80, 0, 0]) (answer [1, 3, 2, 0, 0, 0, 0]) fresh)
    = Some (1527, 1568, 0)
   \<and> (0 :: rat) \<le> 0
   \<and> map_option fst
     (read_spectrum (answer [1, 3, 2, 0x1B, 0x58, 0, 0])
        (answer [1, 3, 2, 0xBB, 0x80, 0, 0]) (answer [1, 3, 2, 0, 0, 0, 0])
        (all_channels silent) fresh)
    = Some ([], [])
   \<and> scan_fails silent silent silent
   \<and> map_option fst (read_spectrum silent silent silent (all_channels silent) fresh)
    = Some ([], [])"
proof -
  have s1: "scan_fails silent silent silent"
    by (simp add: scan_fails_def exchange_outcome_silent failed_def)
  from scan_example(2)
    read_spectrum_aborts [where ?x1.0 = "answer [1, 3, 2, 0x1B, 0x58, 0, 0]"
      and ?x2.0 = "answer [1, 3, 2, 0xBB, 0x80, 0, 0]" and ?x3.0 = "answer [1, 3, 2, 0, 0, 0, 0]"
      and rd = fresh and start_wl = 1527 and stop_wl = 1568 and step_wl = 0
      and ch = "all_channels silent"]
  have r1: "map_option fst
     (read_spectrum (answer [1, 3, 2, 0x1B, 0x58, 0, 0])
        (answer [1, 3, 2, 0xBB, 0x80, 0, 0]) (answer [1, 3, 2, 0, 0, 0, 0])
        (all_channels silent) fresh)
    = Some ([], [])" by blast
  from s1
    read_spectrum_aborts [where ?x1.0 = silent and ?x2.0 = silent and ?x3.0 = silent
      and rd = fresh and ch = "all_channels silent"]
  have r2: "map_option fst (read_spectrum silent silent silent (all_channels silent) fresh)
    = Some ([], [])" by blast
  from scan_example(2) r1 s1 r2 show ?thesis by simp
qed


lemma length_wavelengths:
  "length (map (\<lambda>i. start_wl + of_nat i * step_wl) [0..<num_points]) = 2051"
proof -
  have "length (map (\<lambda>i. start_wl + of_nat i * step_wl) [0..<num_points]) = num_points"
    by simp
  then show ?thesis by (simp only: num_points_def)
qed

lemma channel_result_length_2051:
  "channel_result out = [] \<or> length (channel_result out) = 2051"
  using channel_result_length [of out] by (simp only: num_points_def)

lemma read_spectrum_all_channels:
  assumes "map_option fst (read_scan_parameters x1 x2 x3 rd) = Some (start_wl, stop_wl, step_wl)"
    and "0 < step_wl"
    and "\<forall>i < 4. exchange_outcome 4106 1 (ch i) \<noteq> Raised
          \<and> exchange_outcome 4106 1 (ch i) \<noteq> Pending"
  shows "\<exists>wavelengths spectrum.
      map_option fst (read_spectrum x1 x2 x3 ch rd) = Some (wavelengths, spectrum)
    \<and> wavelengths = map (\<lambda>i. start_wl + of_nat i * step_wl) [0..<num_points]
    \<and> length wavelengths = 2051
    \<and> spectrum = map (\<lambda>i. channel_result (exchange_outcome 4106 1 (ch i))) [0..<4]
    \<and> length spectrum = 4
    \<and> (\<forall>i < 4. failed (exchange_outcome 4106 1 (ch i)) \<longrightarrow> spectrum ! i = [])
    \<and> (\<forall>c \<in> set spectrum. c = [] \<or> length c = length wavelengths)
    \<and> map_option (\<lambda>r. length (written (snd r))) (read_spectrum x1 x2 x3 ch rd)
        = map_option (\<lambda>r. length (written (snd r)) + 4) (read_scan_parameters x1 x2 x3 rd)"
proof -
  from assms(1) obtain rd1 where
    s: "read_scan_parameters x1 x2 x3 rd = Some ((start_wl, stop_wl, step_wl), rd1)"
    by (auto dest: map_option_fst_Some)
  define spectrum where
    "spectrum = map (\<lambda>i. channel_result (exchange_outcome 4106 1 (ch i))) [0..<4]"
  define wavelengths where
    "wavelengths = map (\<lambda>i. start_wl + of_nat i * step_wl) [0..<num_points]"
  from assms(3) have "\<forall>i \<in> set [0..<4]. i < 4 \<and> exchange_outcome 4106 1 (ch i) \<noteq> Raised
      \<and> exchange_outcome 4106 1 (ch i) \<noteq> Pending" by simp
  from read_channels_outcomes [OF this, of "[]" rd1] obtain rd2 where
    c: "read_channels ch [0..<4] [] rd1 = Some (Inr spectrum, rd2)"
    and w: "length (written rd2) = length (written rd1) + 4"
    unfolding spectrum_def by auto
  have r: "read_spectrum x1 x2 x3 ch rd = Some ((wavelengths, spectrum), rd2)"
    unfolding read_spectrum_positive_step [OF s assms(2)] c wavelengths_def by simp
  have lw: "length wavelengths = 2051"
    unfolding wavelengths_def by (rule length_wavelengths)
  have ls: "length spectrum = 4" by (simp add: spectrum_def)
  have nth: "spectrum ! i = channel_result (exchange_outcome 4106 1 (ch i))" if "i < 4" for i
    using that unfolding spectrum_def by (simp del: upt_Suc)
  have empty: "\<forall>i < 4. failed (exchange_outcome 4106 1 (ch i)) \<longrightarrow> spectrum ! i = []"
    by (simp add: nth channel_result_failed)
  have len: "\<forall>c \<in> set spectrum. c = [] \<or> length c = length wavelengths"
    unfolding lw spectrum_def using channel_result_length_2051 by auto
  from r s w have wr: "map_option (\<lambda>r. length (written (snd r))) (read_spectrum x1 x2 x3 ch rd)
        = map_option (\<lambda>r. length (written (snd r)) + 4) (read_scan_parameters x1 x2 x3 rd)"
    by simp
  from r have "map_option fst (read_spectrum x1 x2 x3 ch rd) = Some (wavelengths, spectrum)"
    by simp
  with lw ls empty len wr show ?thesis
    unfolding wavelengths_def [symmetric] spectrum_def [symmetric] by blast
qed



lemma read_channels_raised_later:
  assumes "\<forall>i \<in> set pre. i < 4 \<and> exchange_outcome 4106 1 (ch i) \<noteq> Raised
      \<and> exchange_outcome 4106 1 (ch i) \<noteq> Pending"
    and "k < 4" and "exchange_outcome 4106 1 (ch k) = Raised"
  shows "\<exists>e rd'. read_channels ch (pre @ k # rest) spectrum rd = Some (Inl e, rd')"
  using assms(1)
proof (induction pre arbitrary: spectrum rd)
  case Nil
  from read_channels_raised [where ch = ch and ch_idx = k, OF assms(2,3)]
  show ?case by simp
next
  case (Cons i pre)
  then have i: "i < 4" "exchange_outcome 4106 1 (ch i) \<noteq> Raised"
    "exchange_outcome 4106 1 (ch i) \<noteq> Pending" by simp_all
  from read_channels_step [where ch = ch and ch_idx = i and rd = rd
      and rest = "pre @ k # rest" and spectrum = spectrum, OF i]
  obtain rd1 where
    s: "read_channels ch (i # pre @ k # rest) spectrum rd =
      read_channels ch (pre @ k # rest)
        (spectrum @ [channel_result (exchange_outcome 4106 1 (ch i))]) rd1"
    by blast
  from Cons.prems have "\<forall>i \<in> set pre. i < 4 \<and> exchange_outcome 4106 1 (ch i) \<noteq> Raised
      \<and> exchange_outcome 4106 1 (ch i) \<noteq> Pending" by simp
  from Cons.IH [OF this, of "spectrum @ [channel_result (exchange_outcome 4106 1 (ch i))]" rd1]
    s show ?case by simp
qed

lemma channel_indices_split:
  assumes "k < 4"
  shows "[0..<4] = [0..<k] @ k # [Suc k..<4]"
proof -
  from assms have "[0..<k + (4 - k)] = [0..<k] @ [k..<k + (4 - k)]"
    by (intro upt_add_eq_append) simp
  moreover from assms have "k + (4 - k) = 4" by simp
  ultimately have "[0..<4] = [0..<k] @ [k..<4]" by (simp only:)
  with upt_conv_Cons [OF assms] show ?thesis by (simp only:)
qed

lemma read_spectrum_raised_at:
  assumes "read_scan_parameters x1 x2 x3 rd = Some ((start_wl, stop_wl, step_wl), rd1)"
    and "0 < step_wl" and "k < 4" and "exchange_outcome 4106 1 (ch k) = Raised"
    and "\<forall>i < k. exchange_outcome 4106 1 (ch i) \<noteq> Raised
          \<and> exchange_outcome 4106 1 (ch i) \<noteq> Pending"
  shows "map_option fst (read_spectrum x1 x2 x3 ch rd) = Some ([], [])"
proof -
  from assms(3,5) have "\<forall>i \<in> set [0..<k]. i < 4 \<and> exchange_outcome 4106 1 (ch i) \<noteq> Raised
      \<and> exchange_outcome 4106 1 (ch i) \<noteq> Pending" by simp
  from read_channels_raised_later [where ch = ch and k = k and pre = "[0..<k]"
      and rest = "[Suc k..<4]" and spectrum = "[]" and rd = rd1, OF this assms(3,4)]
  obtain e rd2 where "read_channels ch ([0..<k] @ k # [Suc k..<4]) [] rd1 = Some (Inl e, rd2)"
    by blast
  then have "read_channels ch [0..<4] [] rd1 = Some (Inl e, rd2)"
    by (simp only: channel_indices_split [OF assms(3), symmetric])
  then show ?thesis
    unfolding read_spectrum_positive_step [OF assms(1,2)] by simp
qed


text \<open>
  C8, amended. When the scan parameters decode with a positive step and no exception
  escapes from the read cycle of a channel, \<open>read_spectrum\<close> returns the wavelengths
  \<open>start + i * step\<close> for \<open>i\<close> from 0 to 2050 and exactly four channel sequences. The
  sequence of a channel depends on the exchange of that channel only: it is empty when
  the request is not sent or the answer is not classified as success, and has 2051
  samples, as many as there are wavelengths, otherwise. All four requests are written,
  whichever channels fail. When the port raises during the read cycle of any channel
  \<open>k\<close>, the channels before it having returned, the data of these channels is discarded
  and \<open>read_spectrum\<close> returns empty wavelengths and no channel sequence; so it does when
  the decoded step is not positive.
\<close>

theorem read_spectrum_channels:
  assumes "map_option fst (read_scan_parameters x1 x2 x3 rd) = Some (start_wl, stop_wl, step_wl)"
  shows "(0 < step_wl
      \<and> (\<forall>i < 4. exchange_outcome 4106 1 (ch i) \<noteq> Raised
            \<and> exchange_outcome 4106 1 (ch i) \<noteq> Pending) \<longrightarrow>
      (\<exists>wavelengths spectrum.
          map_option fst (read_spectrum x1 x2 x3 ch rd) = Some (wavelengths, spectrum)
        \<and> wavelengths = map (\<lambda>i. start_wl + of_nat i * step_wl) [0..<num_points]
        \<and> length wavelengths = 2051
        \<and> spectrum = map (\<lambda>i. channel_result (exchange_outcome 4106 1 (ch i))) [0..<4]
        \<and> length spectrum = 4
        \<and> (\<forall>i < 4. failed (exchange_outcome 4106 1 (ch i)) \<longrightarrow> spectrum ! i = [])
        \<and> (\<forall>c \<in> set spectrum. c = [] \<or> length c = length wavelengths)
        \<and> map_option (\<lambda>r. length (written (snd r))) (read_spectrum x1 x2 x3 ch rd)
            = map_option (\<lambda>r. length (written (snd r)) + 4)
                (read_scan_parameters x1 x2 x3 rd)))
   \<and> (0 < step_wl \<and> k < 4 \<and> exchange_outcome 4106 1 (ch k) = Raised
      \<and> (\<forall>i < k. exchange_outcome 4106 1 (ch i) \<noteq> Raised
            \<and> exchange_outcome 4106 1 (ch i) \<noteq> Pending) \<longrightarrow>
      map_option fst (read_spectrum x1 x2 x3 ch rd) = Some ([], []))
   \<and> (step_wl \<le> 0 \<longrightarrow> map_option fst (read_spectrum x1 x2 x3 ch rd) = Some ([], []))"
proof (intro conjI impI)
  assume "0 < step_wl
      \<and> (\<forall>i < 4. exchange_outcome 4106 1 (ch i) \<noteq> Raised
            \<and> exchange_outcome 4106 1 (ch i) \<noteq> Pending)"
  then have "0 < step_wl" and "\<forall>i < 4. exchange_outcome 4106 1 (ch i) \<noteq> Raised
            \<and> exchange_outcome 4106 1 (ch i) \<noteq> Pending" by simp_all
  then show "\<exists>wavelengths spectrum.
          map_option fst (read_spectrum x1 x2 x3 ch rd) = Some (wavelengths, spectrum)
        \<and> wavelengths = map (\<lambda>i. start_wl + of_nat i * step_wl) [0..<num_points]
        \<and> length wavelengths = 2051
        \<and> spectrum = map (\<lambda>i. channel_result (exchange_outcome 4106 1 (ch i))) [0..<4]
        \<and> length spectrum = 4
        \<and> (\<forall>i < 4. failed (exchange_outcome 4106 1 (ch i)) \<longrightarrow> spectrum ! i = [])
        \<and> (\<forall>c \<in> set spectrum. c = [] \<or> length c = length wavelengths)
        \<and> map_option (\<lambda>r. length (written (snd r))) (read_spectrum x1 x2 x3 ch rd)
            = map_option (\<lambda>r. length (written (snd r)) + 4)
                (read_scan_parameters x1 x2 x3 rd)"
    by (rule read_spectrum_all_channels [OF assms])
next
  from assms obtain rd1 where
    s: "read_scan_parameters x1 x2 x3 rd = Some ((start_wl, stop_wl, step_wl), rd1)"
    by (auto dest: map_option_fst_Some)
  {
    assume a: "0 < step_wl \<and> k < 4 \<and> exchange_outcome 4106 1 (ch k) = Raised
      \<and> (\<forall>i < k. exchange_outcome 4106 1 (ch i) \<noteq> Raised
            \<and> exchange_outcome 4106 1 (ch i) \<noteq> Pending)"
    then have "0 < step_wl" and "k < 4" and "exchange_outcome 4106 1 (ch k) = Raised"
      and "\<forall>i < k. exchange_outcome 4106 1 (ch i) \<noteq> Raised
            \<and> exchange_outcome 4106 1 (ch i) \<noteq> Pending" by simp_all
    then show "map_option fst (read_spectrum x1 x2 x3 ch rd) = Some ([], [])"
      by (rule read_spectrum_raised_at [OF s])
  }
  {
    assume "step_wl \<le> 0"
    from read_spectrum_nonpositive_step [OF s this, of ch]
    show "map_option fst (read_spectrum x1 x2 x3 ch rd) = Some ([], [])" by simp
  }
qed

lemma outcome_first_channel_only:
  "exchange_outcome 4106 1 (first_channel_only (answer (replicate 4106 0)) i) =
    (if i = 0 then Answered (replicate 4106 0) else Refused)"
proof (cases "i = 0")
  case True
  have "exchange_outcome 4106 1 (answer (replicate 4106 0)) = Answered (replicate 4106 0)"
    by (rule exchange_outcome_answer) simp_all
  with True show ?thesis by (simp add: first_channel_only_def)
next
  case False
  then show ?thesis by (simp add: first_channel_only_def exchange_outcome_silent)
qed

lemma outcome_raising_at:
  "exchange_outcome 4106 1 (raising_at k (answer (replicate 4106 0)) i) =
    (if i = k then Raised else Answered (replicate 4106 0))"
proof (cases "i = k")
  case True
  then show ?thesis by (simp add: raising_at_def exchange_outcome_unplugged)
next
  case False
  have "exchange_outcome 4106 1 (answer (replicate 4106 0)) = Answered (replicate 4106 0)"
    by (rule exchange_outcome_answer) simp_all
  with False show ?thesis by (simp add: raising_at_def)
qed

theorem read_spectrum_channels_witness:
  "map_option fst
     (read_scan_parameters (answer [1, 3, 2, 0x1B, 0x58, 0, 0])
        (answer [1, 3, 2, 0xBB, 0x80, 0, 0]) (answer [1, 3, 2, 0, 0x14, 0, 0]) fresh)
    = Some (1527, 1568, 1 / 50)
   \<and> (0 :: rat) < 1 / 50
   \<and> exchange_outcome 4106 1 (first_channel_only (answer (replicate 4106 0)) 0)
      = Answered (replicate 4106 0)
   \<and> exchange_outcome 4106 1 (first_channel_only (answer (replicate 4106 0)) 1) = Refused
   \<and> exchange_outcome 4106 1 (first_channel_only (answer (replicate 4106 0)) 2) = Refused
   \<and> exchange_outcome 4106 1 (first_channel_only (answer (replicate 4106 0)) 3) = Refused
   \<and> map_option (\<lambda>r. map length (snd (fst r)))
        (read_spectrum (answer [1, 3, 2, 0x1B, 0x58, 0, 0])
           (answer [1, 3, 2, 0xBB, 0x80, 0, 0]) (answer [1, 3, 2, 0, 0x14, 0, 0])
           (first_channel_only (answer (replicate 4106 0))) fresh)
      = Some [2051, 0, 0, 0]
   \<and> map_option (\<lambda>r. length (fst (fst r)))
        (read_spectrum (answer [1, 3, 2, 0x1B, 0x58, 0, 0])
           (answer [1, 3, 2, 0xBB, 0x80, 0, 0]) (answer [1, 3, 2, 0, 0x14, 0, 0])
           (first_channel_only (answer (replicate 4106 0))) fresh)
      = Some 2051
   \<and> exchange_outcome 4106 1 (raising_at 2 (answer (replicate 4106 0)) 0)
      = Answered (replicate 4106 0)
   \<and> exchange_outcome 4106 1 (raising_at 2 (answer (replicate 4106 0)) 1)
      = Answered (replicate 4106 0)
   \<and> exchange_outcome 4106 1 (raising_at 2 (answer (replicate 4106 0)) 2) = Raised
   \<and> map_option fst
        (read_spectrum (answer [1, 3, 2, 0x1B, 0x58, 0, 0])
           (answer [1, 3, 2, 0xBB, 0x80, 0, 0]) (answer [1, 3, 2, 0, 0x14, 0, 0])
           (raising_at 2 (answer (replicate 4106 0))) fresh)
      = Some ([], [])
   \<and> map_option fst
     (read_scan_parameters (answer [1, 3, 2, 0x1B, 0x58, 0, 0])
        (answer [1, 3, 2, 0xBB, 0x80, 0, 0]) (answer [1, 3, 2, 0, 0, 0, 0]) fresh)
    = Some (1527, 1568, 0)
   \<and> map_option fst
        (read_spectrum (answer [1, 3, 2, 0x1B, 0x58, 0, 0])
           (answer [1, 3, 2, 0xBB, 0x80, 0, 0]) (answer [1, 3, 2, 0, 0, 0, 0])
           (first_channel_only (answer (replicate 4106 0))) fresh)
      = Some ([], [])"
proof -
  have step: "(0 :: rat) < 1 / 50" by simp
  have ok: "\<forall>i < 4. exchange_outcome 4106 1 (first_channel_only (answer (replicate 4106 0)) i)
        \<noteq> Raised
      \<and> exchange_outcome 4106 1 (first_channel_only (answer (replicate 4106 0)) i) \<noteq> Pending"
    by (simp add: outcome_first_channel_only)
  from step ok
    read_spectrum_channels [OF scan_example(1),
      where ch = "first_channel_only (answer (replicate 4106 0))"]
  obtain wavelengths spectrum where
    r: "map_option fst
        (read_spectrum (answer [1, 3, 2, 0x1B, 0x58, 0, 0])
           (answer [1, 3, 2, 0xBB, 0x80, 0, 0]) (answer [1, 3, 2, 0, 0x14, 0, 0])
           (first_channel_only (answer (replicate 4106 0))) fresh)
        = Some (wavelengths, spectrum)"
    and lw: "length wavelengths = 2051"
    and sp: "spectrum = map (\<lambda>i. channel_result (exchange_outcome 4106 1
        (first_channel_only (answer (replicate 4106 0)) i))) [0..<4]"
    by blast
  have "length (channel_result (Answered (replicate 4106 0))) = 2051"
    using channel_result_length_2051 [of "Answered (replicate 4106 0)"]
      length_channel_samples [of "take (2 * num_points) (drop 4 (replicate 4106 0))"]
    by (auto simp add: channel_result_def num_points_def)
  then have ls: "map length spectrum = [2051, 0, 0, 0]"
    unfolding sp channel_indices
    by (simp add: outcome_first_channel_only channel_result_def)
  from r obtain rd' where a: "read_spectrum (answer [1, 3, 2, 0x1B, 0x58, 0, 0])
           (answer [1, 3, 2, 0xBB, 0x80, 0, 0]) (answer [1, 3, 2, 0, 0x14, 0, 0])
           (first_channel_only (answer (replicate 4106 0))) fresh
        = Some ((wavelengths, spectrum), rd')"
    by (auto dest: map_option_fst_Some)
  have before: "\<forall>i < 2. exchange_outcome 4106 1 (raising_at 2 (answer (replicate 4106 0)) i)
        \<noteq> Raised
      \<and> exchange_outcome 4106 1 (raising_at 2 (answer (replicate 4106 0)) i) \<noteq> Pending"
    by (simp add: outcome_raising_at)
  have at: "exchange_outcome 4106 1 (raising_at 2 (answer (replicate 4106 0)) 2) = Raised"
    by (simp add: outcome_raising_at)
  have k: "(2 :: nat) < 4" by simp
  from step k at before
    read_spectrum_channels [OF scan_example(1),
      where ch = "raising_at 2 (answer (replicate 4106 0))" and k = 2]
  have b: "map_option fst
        (read_spectrum (answer [1, 3, 2, 0x1B, 0x58, 0, 0])
           (answer [1, 3, 2, 0xBB, 0x80, 0, 0]) (answer [1, 3, 2, 0, 0x14, 0, 0])
           (raising_at 2 (answer (replicate 4106 0))) fresh)
      = Some ([], [])"
    by blast
  have z: "(0 :: rat) \<le> 0" by simp
  from z
    read_spectrum_channels [OF scan_example(2),
      where ch = "first_channel_only (answer (replicate 4106 0))"]
  have c: "map_option fst
        (read_spectrum (answer [1, 3, 2, 0x1B, 0x58, 0, 0])
           (answer [1, 3, 2, 0xBB, 0x80, 0, 0]) (answer [1, 3, 2, 0, 0, 0, 0])
           (first_channel_only (answer (replicate 4106 0))) fresh)
      = Some ([], [])"
    by blast
  from a lw ls scan_example step b c show ?thesis
    by (simp add: outcome_first_channel_only outcome_raising_at)
qed

text \<open>
  C8, as stated, fails: with scan parameters that decode to the step 0, and with scan
  parameters of positive step followed by a port that raises during the first channel,
  \<open>read_spectrum\<close> returns no channel sequence at all.
\<close>

theorem read_spectrum_four_channels_counterexample:
  "map_option fst
     (read_scan_parameters (answer [1, 3, 2, 0x1B, 0x58, 0, 0])
        (answer [1, 3, 2, 0xBB, 0x80, 0, 0]) (answer [1, 3, 2, 0, 0, 0, 0]) fresh)
    = Some (1527, 1568, 0)
   \<and> map_option fst
     (read_spectrum (answer [1, 3, 2, 0x1B, 0x58, 0, 0])
        (answer [1, 3, 2, 0xBB, 0x80, 0, 0]) (answer [1, 3, 2, 0, 0, 0, 0])
        (all_channels (answer (replicate 4106 0))) fresh)
    = Some ([], [])
   \<and> map_option fst
     (read_scan_parameters (answer [1, 3, 2, 0x1B, 0x58, 0, 0])
        (answer [1, 3, 2, 0xBB, 0x80, 0, 0]) (answer [1, 3, 2, 0, 0x14, 0, 0]) fresh)
    = Some (1527, 1568, 1 / 50)
   \<and> map_option fst
     (read_spectrum (answer [1, 3, 2, 0x1B, 0x58, 0, 0])
        (answer [1, 3, 2, 0xBB, 0x80, 0, 0]) (answer [1, 3, 2, 0, 0x14, 0, 0])
        (all_channels unplugged) fresh)
    = Some ([], [])
   \<and> length ([] :: int list list) \<noteq> 4"
proof -
  from scan_example(2) obtain rd1 where
    s0: "read_scan_parameters (answer [1, 3, 2, 0x1B, 0x58, 0, 0])
        (answer [1, 3, 2, 0xBB, 0x80, 0, 0]) (answer [1, 3, 2, 0, 0, 0, 0]) fresh
      = Some ((1527, 1568, 0), rd1)"
    by (auto dest: map_option_fst_Some)
  from read_spectrum_nonpositive_step [OF s0 order_refl]
  have a: "map_option fst
     (read_spectrum (answer [1, 3, 2, 0x1B, 0x58, 0, 0])
        (answer [1, 3, 2, 0xBB, 0x80, 0, 0]) (answer [1, 3, 2, 0, 0, 0, 0])
        (all_channels (answer (replicate 4106 0))) fresh)
    = Some ([], [])" by simp
  from scan_example(1) obtain rd2 where
    s1: "read_scan_parameters (answer [1, 3, 2, 0x1B, 0x58, 0, 0])
        (answer [1, 3, 2, 0xBB, 0x80, 0, 0]) (answer [1, 3, 2, 0, 0x14, 0, 0]) fresh
      = Some ((1527, 1568, 1 / 50), rd2)"
    by (auto dest: map_option_fst_Some)
  have "exchange_outcome 4106 1 (all_channels unplugged 0) = Raised"
    by (simp add: all_channels_def exchange_outcome_unplugged)
  with s1 have b: "map_option fst
     (read_spectrum (answer [1, 3, 2, 0x1B, 0x58, 0, 0])
        (answer [1, 3, 2, 0xBB, 0x80, 0, 0]) (answer [1, 3, 2, 0, 0x14, 0, 0])
        (all_channels unplugged) fresh)
    = Some ([], [])"
    by (intro read_spectrum_raised [where step_wl = "1 / 50"]) simp_all
  from scan_example a b show ?thesis by simp
qed


subsection \<open>Center wavelengths\<close>

lemma take_4_drop:
  assumes "k + 4 \<le> length xs"
  shows "take 4 (drop k xs) = [xs ! k, xs ! (k + 1), xs ! (k + 2), xs ! (k + 3)]"
proof (rule nth_equalityI)
  from assms show "length (take 4 (drop k xs)) = length [xs ! k, xs ! (k + 1), xs ! (k + 2), xs ! (k + 3)]"
    by simp
next
  fix i assume "i < length (take 4 (drop k xs))"
  with assms have "i < 4" by simp
  then consider "i = 0" | "i = 1" | "i = 2" | "i = 3" by arith
  then show "take 4 (drop k xs) ! i = [xs ! k, xs ! (k + 1), xs ! (k + 2), xs ! (k + 3)] ! i"
    using assms by cases (simp_all add: numeral_3_eq_3 numeral_2_eq_2)
qed

lemma unpack_wavelength:
  assumes "1028 \<le> length buf" and "i < 32"
  shows "unpack_be_float (take 4 (drop (i * 4) (take 1024 (drop 4 buf))))
    = Inr (float_at buf (4 + 4 * i))"
proof -
  define data where "data = take 1024 (drop 4 buf)"
  from assms have l: "length data = 1024" by (simp add: data_def)
  have n: "data ! j = buf ! (4 + j)" if "j < 1024" for j
    using that assms by (simp add: data_def)
  from l assms(2) have "i * 4 + 4 \<le> length data" by simp
  from take_4_drop [OF this] assms(2)
  have "take 4 (drop (i * 4) data)
    = [buf ! (4 + i * 4), buf ! (4 + (i * 4 + 1)), buf ! (4 + (i * 4 + 2)), buf ! (4 + (i * 4 + 3))]"
    by (simp add: n)
  then show ?thesis
    unfolding data_def [symmetric]
    by (simp add: unpack_be_float_def float_at_def ac_simps)
qed

lemma parse_wavelengths_filter:
  assumes "1028 \<le> length buf" and "\<forall>i \<in> set idxs. i < 32"
  shows "parse_wavelengths (take 1024 (drop 4 buf)) idxs results
    = Inr (results @ filter float_gt_zero (map (\<lambda>i. float_at buf (4 + 4 * i)) idxs))"
  using assms(2)
proof (induction idxs arbitrary: results)
  case Nil
  then show ?case by simp
next
  case (Cons i idxs)
  then have "i < 32" by simp
  from unpack_wavelength [OF assms(1) this] Cons show ?case
    by (simp add: Let_def)
qed

lemma read_center_wavelengths_answered:
  assumes "build_command address ''14'' ''03000200'' = Inr frame"
    and "exchange_outcome 1028 20 x = Answered buf"
  shows "map_option fst (read_center_wavelengths address x rd)
    = Some (Inr (filter float_gt_zero (map (\<lambda>i. float_at buf (4 + 4 * i)) [0..<32])))"
proof -
  from assms(2) have w: "write_ok x"
    by (auto simp add: exchange_outcome_def split: if_splits)
  from exchange_outcome_Answered_length [OF assms(2)] have l: "1028 \<le> length buf" by simp
  have p: "parse_wavelengths (take 1024 (drop 4 buf)) [0..<32] []
    = Inr ([] @ filter float_gt_zero (map (\<lambda>i. float_at buf (4 + 4 * i)) [0..<32]))"
    by (rule parse_wavelengths_filter [OF l]) simp
  from read_response_outcome [OF w, of 1028 20 "rd\<lparr>written := written rd @ [frame]\<rparr>"] assms(2)
  have r: "read_response (4 + 1024) 20 (reply x) (rd\<lparr>written := written rd @ [frame]\<rparr>)
    = Some (Inr Success, rd\<lparr>written := written rd @ [frame], byte_array := buf\<rparr>)"
    by simp
  show ?thesis
    unfolding read_center_wavelengths_def Let_def send_command_frame [OF assms(1)]
    using w r p by (simp del: upt_Suc)
qed


text \<open>
  C9. When the request is sent and the answer is classified as success,
  \<open>read_center_wavelengths\<close> reads the 32 big-endian single-precision floats that follow
  the four header bytes and returns those that are greater than zero, in their order:
  zeros, negative values and NaNs are dropped, and the result has at most 32 entries.
\<close>

theorem read_center_wavelengths_filters:
  assumes "build_command address ''14'' ''03000200'' = Inr frame"
    and "exchange_outcome 1028 20 x = Answered buf"
  shows "\<exists>results.
      map_option fst (read_center_wavelengths address x rd) = Some (Inr results)
    \<and> results = filter float_gt_zero (map (\<lambda>i. float_at buf (4 + 4 * i)) [0..<32])
    \<and> length results \<le> 32
    \<and> (\<forall>v \<in> set results. float_gt_zero v)"
proof -
  have "length (filter float_gt_zero (map (\<lambda>i. float_at buf (4 + 4 * i)) [0..<32]))
      \<le> length (map (\<lambda>i. float_at buf (4 + 4 * i)) [0..<32])"
    by (rule length_filter_le)
  then have "length (filter float_gt_zero (map (\<lambda>i. float_at buf (4 + 4 * i)) [0..<32])) \<le> 32"
    by (simp only: length_map length_upt)
  with read_center_wavelengths_answered [OF assms, of rd] show ?thesis
    by (intro exI conjI) (assumption, rule refl, assumption, simp only: set_filter, blast)
qed

lemma float_of_bits_examples:
  "float_of_bits 1153548288 = Finite 1550"
  "float_of_bits 3212836864 = Finite (- 1)"
  "float_of_bits 0 = Finite 0"
  "float_of_bits 1153558118 = Finite (6353715 / 4096)"
  by (simp_all add: float_of_bits_def Let_def)

theorem read_center_wavelengths_filters_witness:
  "(\<exists>frame. build_command ''01'' ''14'' ''03000200'' = Inr frame)
   \<and> exchange_outcome 1028 20 (answer ([1, 0x14, 4, 0, 0x44, 0xC1, 0xC0, 0, 0xBF, 0x80, 0, 0, 0, 0, 0, 0, 0x44, 0xC1, 0xE6, 0x66]
          @ replicate 1008 0)) = Answered ([1, 0x14, 4, 0, 0x44, 0xC1, 0xC0, 0, 0xBF, 0x80, 0, 0, 0, 0, 0, 0, 0x44, 0xC1, 0xE6, 0x66]
          @ replicate 1008 0)
   \<and> map_option fst (read_center_wavelengths ''01'' (answer ([1, 0x14, 4, 0, 0x44, 0xC1, 0xC0, 0, 0xBF, 0x80, 0, 0, 0, 0, 0, 0, 0x44, 0xC1, 0xE6, 0x66]
          @ replicate 1008 0)) fresh)
      = Some (Inr [Finite 1550, Finite (6353715 / 4096)])"
proof -
  define buf :: "byte list" where "buf = ([1, 0x14, 4, 0, 0x44, 0xC1, 0xC0, 0, 0xBF, 0x80, 0, 0, 0, 0, 0, 0, 0x44, 0xC1, 0xE6, 0x66]
          @ replicate 1008 0)"
  have f: "\<exists>frame. build_command ''01'' ''14'' ''03000200'' = Inr frame"
    by (simp add: build_command_def isspace_def hex_value_def)
  then obtain frame where fr: "build_command ''01'' ''14'' ''03000200'' = Inr frame" ..
  have o: "exchange_outcome 1028 20 (answer buf) = Answered buf"
    by (rule exchange_outcome_answer) (simp_all add: buf_def)
  have head: "float_at buf 4 = Finite 1550" "float_at buf 8 = Finite (- 1)"
    "float_at buf 12 = Finite 0" "float_at buf 16 = Finite (6353715 / 4096)"
    by (simp_all add: buf_def float_at_def float_of_bits_examples)
  have tail: "float_at buf k = Finite 0" if "20 \<le> k" and "k < 1025" for k
    using that by (simp add: buf_def float_at_def nth_append float_of_bits_examples)
  have t: "\<not> float_gt_zero (float_at buf (4 + 4 * i))" if "i \<in> set [4..<32]" for i
  proof -
    from that have "4 \<le> i" and "i < 32" by (simp_all only: set_upt atLeastLessThan_iff)
    then have "float_at buf (4 + 4 * i) = Finite 0" by (intro tail) simp_all
    then show ?thesis by (simp add: float_gt_zero_def)
  qed
  have rest: "filter float_gt_zero (map (\<lambda>i. float_at buf (4 + 4 * i)) [4..<32]) = []"
    unfolding filter_empty_conv set_map using t by blast
  have "[0..<4 + 28] = [0..<4] @ [4..<4 + 28]" by (rule upt_add_eq_append) simp
  moreover have "(4::nat) + 28 = 32" by simp
  ultimately have split: "[0..<32] = [0..<4] @ [4..<32]" by (simp only:)
  have e: "filter float_gt_zero (map (\<lambda>i. float_at buf (4 + 4 * i)) [0..<32])
      = [Finite 1550, Finite (6353715 / 4096)]"
    unfolding split channel_indices map_append filter_append rest
    by (simp add: head float_gt_zero_def)
  from read_center_wavelengths_filters [OF fr o, of fresh] e
  have "map_option fst (read_center_wavelengths ''01'' (answer buf) fresh)
      = Some (Inr [Finite 1550, Finite (6353715 / 4096)])"
    by auto
  with f o show ?thesis unfolding buf_def by (intro conjI)
qed


end
